theory Spec2Isabelle
  imports Complex_Main "HOL-Library.Log_Nat" "HOL-Library.Multiset"
begin

section \<open>JavaScript numbers and strings\<close>

text \<open>
  A JavaScript \<^verbatim>\<open>number\<close> is \<open>NaN\<close>, an infinity or a finite binary64 value, held
  here as the rational it denotes. Negative zero is \<open>Fin 0\<close>: the program never tells the
  two zeros apart.

  A string is a list of 8-bit code units.
\<close>

datatype jsnum = NaN | NegInf | Fin rat | PosInf

text \<open>The relational operator \<^verbatim>\<open><\<close> on numbers: false as soon as one side is \<open>NaN\<close>.\<close>

fun js_less :: "jsnum \<Rightarrow> jsnum \<Rightarrow> bool" where
  "js_less NaN _ = False"
| "js_less _ NaN = False"
| "js_less NegInf NegInf = False"
| "js_less NegInf _ = True"
| "js_less (Fin a) NegInf = False"
| "js_less (Fin a) (Fin b) = (a < b)"
| "js_less (Fin a) PosInf = True"
| "js_less PosInf _ = False"

text \<open>\<^verbatim>\<open>Math.min\<close> and \<^verbatim>\<open>Math.max\<close> of two numbers: \<open>NaN\<close> if either is \<open>NaN\<close>.\<close>

definition Math_min :: "jsnum \<Rightarrow> jsnum \<Rightarrow> jsnum" where
  "Math_min a b = (if a = NaN \<or> b = NaN then NaN else if js_less b a then b else a)"

definition Math_max :: "jsnum \<Rightarrow> jsnum \<Rightarrow> jsnum" where
  "Math_max a b = (if a = NaN \<or> b = NaN then NaN else if js_less a b then b else a)"

fun js_neg :: "jsnum \<Rightarrow> jsnum" where
  "js_neg NaN = NaN"
| "js_neg NegInf = PosInf"
| "js_neg (Fin a) = Fin (- a)"
| "js_neg PosInf = NegInf"

fun js_add :: "jsnum \<Rightarrow> jsnum \<Rightarrow> jsnum" where
  "js_add NaN _ = NaN"
| "js_add _ NaN = NaN"
| "js_add (Fin a) (Fin b) = Fin (a + b)"
| "js_add PosInf NegInf = NaN"
| "js_add NegInf PosInf = NaN"
| "js_add PosInf _ = PosInf"
| "js_add _ PosInf = PosInf"
| "js_add NegInf _ = NegInf"
| "js_add _ NegInf = NegInf"

definition js_sub :: "jsnum \<Rightarrow> jsnum \<Rightarrow> jsnum" where
  "js_sub a b = js_add a (js_neg b)"

text \<open>
  \<open>js_add\<close> and \<open>js_sub\<close> are the exact sum and difference. The language rounds a result
  to binary64, which is \<open>js_round\<close>; on integers below \<open>2\<^sup>5\<^sup>3\<close> in magnitude, as page
  numbers and array lengths are, the rounding changes nothing.

  \<open>round64\<close> is the binary64 value nearest to a rational, ties going to the even
  significand: a significand of 53 bits at the exponent of the value, or a multiple of
  \<open>2\<^sup>-\<^sup>1\<^sup>0\<^sup>7\<^sup>4\<close> below the normal range, and an infinity once the rounded value reaches
  \<open>2\<^sup>1\<^sup>0\<^sup>2\<^sup>4\<close>.
\<close>

definition pow2 :: "int \<Rightarrow> rat" where
  "pow2 e = 2 powi e"

definition roundHalfEven :: "rat \<Rightarrow> int" where
  "roundHalfEven q =
     (let f = \<lfloor>q\<rfloor>; d = q - of_int f
      in if d < 1 / 2 then f else if 1 / 2 < d then f + 1 else if even f then f else f + 1)"

text \<open>The exponent \<open>e\<close> of a positive rational: \<open>2\<^sup>e \<le> q < 2\<^sup>e\<^sup>+\<^sup>1\<close>.\<close>

definition binade :: "rat \<Rightarrow> int" where
  "binade q =
     (let (n, d) = quotient_of q; k = bitlen n - bitlen d
      in if pow2 k \<le> q then k else k - 1)"

definition round64 :: "rat \<Rightarrow> jsnum" where
  "round64 q =
     (if q = 0 then Fin 0
      else
        (let a = \<bar>q\<bar>;
             e = max (binade a - 52) (- 1074);
             r = of_int (roundHalfEven (a / pow2 e)) * pow2 e
         in if pow2 1024 \<le> r then (if q < 0 then NegInf else PosInf)
            else Fin (if q < 0 then - r else r)))"

fun js_round :: "jsnum \<Rightarrow> jsnum" where
  "js_round (Fin q) = round64 q"
| "js_round n = n"

definition isNaN :: "jsnum \<Rightarrow> bool" where
  "isNaN n = (n = NaN)"

text \<open>The length of an array, as a number.\<close>

definition js_nat :: "nat \<Rightarrow> jsnum" where
  "js_nat n = Fin (of_nat n)"

definition js_int :: "int \<Rightarrow> jsnum" where
  "js_int i = Fin (of_int i)"

section \<open>Numeric literals in strings\<close>

definition isDigit :: "char \<Rightarrow> bool" where
  "isDigit c = (48 \<le> (of_char c :: nat) \<and> (of_char c :: nat) \<le> 57)"

definition digitVal :: "char \<Rightarrow> nat" where
  "digitVal c = of_char c - 48"

definition digitsVal :: "string \<Rightarrow> nat" where
  "digitsVal ds = foldl (\<lambda>acc c. 10 * acc + digitVal c) 0 ds"

text \<open>
  White space and line terminators among the 8-bit code units: tab, line feed, vertical
  tab, form feed, carriage return, space and no-break space.
\<close>

definition isWhiteSpace :: "char \<Rightarrow> bool" where
  "isWhiteSpace c = ((of_char c :: nat) \<in> set [9, 10, 11, 12, 13, 32, 160])"

definition trimStart :: "string \<Rightarrow> string" where
  "trimStart s = dropWhile isWhiteSpace s"

definition trim :: "string \<Rightarrow> string" where
  "trim s = rev (dropWhile isWhiteSpace (rev (dropWhile isWhiteSpace s)))"

definition startsWith :: "string \<Rightarrow> string \<Rightarrow> bool" where
  "startsWith s p = (take (length p) s = p)"

definition endsWith :: "string \<Rightarrow> string \<Rightarrow> bool" where
  "endsWith s p = (length p \<le> length s \<and> drop (length s - length p) s = p)"

definition pow10 :: "int \<Rightarrow> rat" where
  "pow10 e = (if e < 0 then 1 / 10 ^ nat (- e) else 10 ^ nat e)"

text \<open>
  The grammar of ECMAScript's \<^verbatim>\<open>StrDecimalLiteral\<close>, read as \<^verbatim>\<open>parseFloat\<close> reads it:
  the longest prefix of the input that is such a literal, with its value, rounded to
  binary64, and the rest of the input. An exponent indicator counts only when digits
  follow it.
\<close>

definition scanExponent :: "string \<Rightarrow> int \<times> string" where
  "scanExponent s =
     (case s of
        [] \<Rightarrow> (0, s)
      | c # t \<Rightarrow>
          if c = CHR ''e'' \<or> c = CHR ''E'' then
            (let (sgn, u) =
                   (case t of
                      [] \<Rightarrow> (1, t)
                    | d # u' \<Rightarrow>
                        if d = CHR ''+'' then (1, u')
                        else if d = CHR ''-'' then (- 1, u')
                        else (1, t));
                 ds = takeWhile isDigit u
             in if ds = [] then (0, s) else (sgn * int (digitsVal ds), dropWhile isDigit u))
          else (0, s))"

definition scanUnsignedDecimal :: "string \<Rightarrow> (jsnum \<times> string) option" where
  "scanUnsignedDecimal s =
     (if startsWith s ''Infinity'' then Some (PosInf, drop 8 s)
      else
        (let ip = takeWhile isDigit s;
             r1 = dropWhile isDigit s;
             hasDot = (r1 \<noteq> [] \<and> hd r1 = CHR ''.'');
             fp = (if hasDot then takeWhile isDigit (tl r1) else []);
             r2 = (if hasDot then dropWhile isDigit (tl r1) else r1)
         in if ip = [] \<and> fp = [] then None
            else
              (let (e, r3) = scanExponent r2
               in Some (round64 (of_nat (digitsVal (ip @ fp)) / 10 ^ length fp * pow10 e), r3))))"

definition scanDecimal :: "string \<Rightarrow> (jsnum \<times> string) option" where
  "scanDecimal s =
     (case s of
        [] \<Rightarrow> None
      | c # t \<Rightarrow>
          if c = CHR ''+'' then scanUnsignedDecimal t
          else if c = CHR ''-'' then map_option (\<lambda>(v, r). (js_neg v, r)) (scanUnsignedDecimal t)
          else scanUnsignedDecimal s)"

text \<open>\<^verbatim>\<open>parseFloat\<close>: leading white space is skipped, what follows the literal is ignored.\<close>

definition parseFloat :: "string \<Rightarrow> jsnum" where
  "parseFloat s = (case scanDecimal (trimStart s) of None \<Rightarrow> NaN | Some (v, r) \<Rightarrow> v)"

text \<open>
  The conversion of a string to a number (\<^verbatim>\<open>StringToNumber\<close>), which \<^verbatim>\<open>Math.min\<close>
  applies to a string argument: the whole trimmed string has to be a literal, the empty
  string is \<open>0\<close>, and the prefixes \<^verbatim>\<open>0x\<close>, \<^verbatim>\<open>0o\<close>, \<^verbatim>\<open>0b\<close> introduce an unsigned
  integer in radix 16, 8, 2.
\<close>

definition radixDigit :: "char \<Rightarrow> nat option" where
  "radixDigit c =
     (let n = (of_char c :: nat)
      in if 48 \<le> n \<and> n \<le> 57 then Some (n - 48)
         else if 97 \<le> n \<and> n \<le> 102 then Some (n - 87)
         else if 65 \<le> n \<and> n \<le> 70 then Some (n - 55)
         else None)"

definition radixLiteral :: "nat \<Rightarrow> string \<Rightarrow> jsnum" where
  "radixLiteral radix ds =
     (if ds \<noteq> [] \<and> list_all (\<lambda>c. case radixDigit c of None \<Rightarrow> False | Some d \<Rightarrow> d < radix) ds
      then round64 (of_nat (foldl (\<lambda>acc c. radix * acc + the (radixDigit c)) 0 ds))
      else NaN)"

definition StringToNumber :: "string \<Rightarrow> jsnum" where
  "StringToNumber s =
     (let t = trim s
      in if t = [] then Fin 0
         else if startsWith t ''0x'' \<or> startsWith t ''0X'' then radixLiteral 16 (drop 2 t)
         else if startsWith t ''0o'' \<or> startsWith t ''0O'' then radixLiteral 8 (drop 2 t)
         else if startsWith t ''0b'' \<or> startsWith t ''0B'' then radixLiteral 2 (drop 2 t)
         else (case scanDecimal t of
                 None \<Rightarrow> NaN
               | Some (v, r) \<Rightarrow> if r = [] then v else NaN))"


section \<open>JavaScript values\<close>

text \<open>
  The values that \<^verbatim>\<open>JSON.parse\<close> returns, and \<^verbatim>\<open>undefined\<close> for a property that is
  not there. An object is the list of its own properties.
\<close>

datatype jsval =
    JUndefined
  | JNull
  | JBool bool
  | JNumber jsnum
  | JString string
  | JArray "jsval list"
  | JObject "(string \<times> jsval) list"

text \<open>Truthiness, as \<^verbatim>\<open>||\<close>, \<^verbatim>\<open>!\<close> and \<^verbatim>\<open>if\<close> test it.\<close>

fun ToBoolean :: "jsval \<Rightarrow> bool" where
  "ToBoolean JUndefined = False"
| "ToBoolean JNull = False"
| "ToBoolean (JBool b) = b"
| "ToBoolean (JNumber n) = (n \<noteq> NaN \<and> n \<noteq> Fin 0)"
| "ToBoolean (JString s) = (s \<noteq> [])"
| "ToBoolean (JArray xs) = True"
| "ToBoolean (JObject fs) = True"

text \<open>
  Reading a property \<^verbatim>\<open>v.name\<close>: a \<^verbatim>\<open>TypeError\<close> (\<open>None\<close>) on \<^verbatim>\<open>null\<close> and
  \<^verbatim>\<open>undefined\<close>, the own property of an object, and \<^verbatim>\<open>undefined\<close> otherwise. None of
  the names this program reads (\<^verbatim>\<open>page\<close>, \<^verbatim>\<open>title\<close>, \<^verbatim>\<open>groups\<close>, ...) is inherited
  from a prototype.
\<close>

fun getProp :: "jsval \<Rightarrow> string \<Rightarrow> jsval option" where
  "getProp JUndefined name = None"
| "getProp JNull name = None"
| "getProp (JObject fs) name = (case map_of fs name of None \<Rightarrow> Some JUndefined | Some v \<Rightarrow> Some v)"
| "getProp _ name = Some JUndefined"

text \<open>
  Converting an object to a primitive throws a \<^verbatim>\<open>TypeError\<close> when the object has an
  own property \<^verbatim>\<open>toString\<close> (which, coming from JSON, is not callable, while the
  inherited \<^verbatim>\<open>valueOf\<close> returns the object itself); an array converts by joining the
  conversions of its elements.
\<close>

fun throwsToPrimitive :: "jsval \<Rightarrow> bool" where
  "throwsToPrimitive (JObject fs) = (''toString'' \<in> set (map fst fs))"
| "throwsToPrimitive (JArray xs) = (\<exists>x \<in> set xs. throwsToPrimitive x)"
| "throwsToPrimitive _ = False"

text \<open>
  \<^verbatim>\<open>ToNumber\<close>, \<open>None\<close> for a \<^verbatim>\<open>TypeError\<close>. An array of two or more elements joins to a
  string with a comma, which is no numeric literal; an array of one element converts as
  the string of that element does, and the string of a number converts back to the
  number.
\<close>

fun ToNumberOk :: "jsval \<Rightarrow> jsnum" where
  "ToNumberOk JUndefined = NaN"
| "ToNumberOk JNull = Fin 0"
| "ToNumberOk (JBool b) = (if b then Fin 1 else Fin 0)"
| "ToNumberOk (JNumber n) = n"
| "ToNumberOk (JString s) = StringToNumber s"
| "ToNumberOk (JObject fs) = NaN"
| "ToNumberOk (JArray []) = Fin 0"
| "ToNumberOk (JArray [JUndefined]) = Fin 0"
| "ToNumberOk (JArray [JNull]) = Fin 0"
| "ToNumberOk (JArray [JBool b]) = NaN"
| "ToNumberOk (JArray [JNumber n]) = n"
| "ToNumberOk (JArray [JString s]) = StringToNumber s"
| "ToNumberOk (JArray [JObject fs]) = NaN"
| "ToNumberOk (JArray [JArray ys]) = ToNumberOk (JArray ys)"
| "ToNumberOk (JArray (x # y # zs)) = NaN"

definition ToNumber :: "jsval \<Rightarrow> jsnum option" where
  "ToNumber v = (if throwsToPrimitive v then None else Some (ToNumberOk v))"


text \<open>
  Number-to-string conversion of an integer below \<open>10\<^sup>2\<^sup>1\<close> in magnitude, which a template
  literal applies: the decimal digits, with a minus sign for a negative value.
\<close>

definition digitChar :: "nat \<Rightarrow> char" where
  "digitChar d = ''0123456789'' ! d"

fun digits10 :: "nat \<Rightarrow> string" where
  "digits10 n = (if n < 10 then [digitChar n] else digits10 (n div 10) @ [digitChar (n mod 10)])"

declare digits10.simps [simp del]

definition NumberToString :: "int \<Rightarrow> string" where
  "NumberToString i = (if i < 0 then CHR ''-'' # digits10 (nat (- i)) else digits10 (nat i))"


section \<open>The reading session: navigation and the page counter\<close>

text \<open>
  \<^verbatim>\<open>GistReaderClient\<close> and \<^verbatim>\<open>ImgurReaderClient\<close> hold the same state and the same
  navigation code: the fixed page list, of which only the length \<open>totalPages\<close> is read
  here, the current page and the view mode.
\<close>

datatype ViewMode = Single | Double

definition toggleViewMode :: "ViewMode \<Rightarrow> ViewMode" where
  "toggleViewMode current = (if current = Single then Double else Single)"

definition getPageIncrement :: "ViewMode \<Rightarrow> jsnum" where
  "getPageIncrement viewMode = (if viewMode = Double then Fin 2 else Fin 1)"

text \<open>\<^verbatim>\<open>setCurrentPage(current => Math.min(current + increment, totalPages))\<close>\<close>

definition goToNextPage :: "ViewMode \<Rightarrow> nat \<Rightarrow> jsnum \<Rightarrow> jsnum" where
  "goToNextPage viewMode totalPages current =
     Math_min (js_add current (getPageIncrement viewMode)) (js_nat totalPages)"

text \<open>\<^verbatim>\<open>setCurrentPage(current => Math.max(1, current - increment))\<close>\<close>

definition goToPrevPage :: "ViewMode \<Rightarrow> jsnum \<Rightarrow> jsnum" where
  "goToPrevPage viewMode current = Math_max (Fin 1) (js_sub current (getPageIncrement viewMode))"

text \<open>Pressing a navigation control \<open>n\<close> times in a row.\<close>

fun repeated :: "nat \<Rightarrow> ('a \<Rightarrow> 'a) \<Rightarrow> 'a \<Rightarrow> 'a" where
  "repeated 0 f x = x"
| "repeated (Suc n) f x = repeated n f (f x)"

text \<open>
  \<^verbatim>\<open>getPageDisplay\<close>, at an integer current page. The first test is the guard for
  the empty page list.
\<close>

definition getPageDisplay :: "ViewMode \<Rightarrow> nat \<Rightarrow> int \<Rightarrow> string" where
  "getPageDisplay viewMode totalPages currentPage =
     (if totalPages = 0 then ''0 / 0''
      else if viewMode = Single \<or> currentPage \<ge> int totalPages
        then NumberToString currentPage @ '' / '' @ NumberToString (int totalPages)
      else NumberToString currentPage @ ''-'' @ NumberToString (currentPage + 1)
             @ '' / '' @ NumberToString (int totalPages))"


section \<open>The reading session: resuming from stored progress\<close>

text \<open>
  \<^verbatim>\<open>localStorage\<close> maps a key to a text. What \<^verbatim>\<open>JSON.parse\<close> makes of a text is carried
  with it: \<open>parsed\<close> is the value it returns, \<open>None\<close> when it throws a \<^verbatim>\<open>SyntaxError\<close>.
\<close>

datatype stored = Stored (raw: string) (parsed: "jsval option")

type_synonym localStorage = "string \<Rightarrow> stored option"

definition gistProgressKey :: "string \<Rightarrow> string \<Rightarrow> string" where
  "gistProgressKey gistId chapterKey = ''manga-progress-gist-'' @ gistId @ ''-'' @ chapterKey"

definition imgurProgressKey :: "string \<Rightarrow> string" where
  "imgurProgressKey albumId = ''manga-progress-imgur-'' @ albumId"

text \<open>\<^verbatim>\<open>progress.page || 1\<close> and \<^verbatim>\<open>pages.length || 1\<close>\<close>

definition orOne :: "jsval \<Rightarrow> jsval" where
  "orOne v = (if ToBoolean v then v else JNumber (Fin 1))"

definition lengthOrOne :: "nat \<Rightarrow> jsnum" where
  "lengthOrOne n = (if n = 0 then Fin 1 else js_nat n)"

text \<open>
  The effect that runs on mount, the same in both reader components but for the key. It
  returns the page given to \<^verbatim>\<open>setCurrentPage\<close> and the store it leaves.
  \<^verbatim>\<open>if (savedProgress)\<close> is false for a missing item and for the empty text; the
  \<^verbatim>\<open>try\<close> block covers \<^verbatim>\<open>JSON.parse\<close>, the property read and the two \<^verbatim>\<open>Math\<close> calls,
  and the \<^verbatim>\<open>catch\<close> removes the item and leaves \<^verbatim>\<open>pageToSet\<close> at 1.
\<close>

definition mountEffect :: "localStorage \<Rightarrow> string \<Rightarrow> nat \<Rightarrow> jsnum \<times> localStorage" where
  "mountEffect localStorage progressKey pagesLength =
     (case localStorage progressKey of
        None \<Rightarrow> (Fin 1, localStorage)
      | Some savedProgress \<Rightarrow>
          if raw savedProgress = [] then (Fin 1, localStorage)
          else
            (case parsed savedProgress of
               None \<Rightarrow> (Fin 1, localStorage(progressKey := None))
             | Some progress \<Rightarrow>
                 (case getProp progress ''page'' of
                    None \<Rightarrow> (Fin 1, localStorage(progressKey := None))
                  | Some page \<Rightarrow>
                      (case ToNumber (orOne page) of
                         None \<Rightarrow> (Fin 1, localStorage(progressKey := None))
                       | Some n \<Rightarrow>
                           (Math_max (Fin 1) (Math_min n (lengthOrOne pagesLength)),
                            localStorage)))))"

definition GistReaderClient_mount ::
  "localStorage \<Rightarrow> string \<Rightarrow> string \<Rightarrow> 'a list \<Rightarrow> jsnum \<times> localStorage" where
  "GistReaderClient_mount localStorage gistId chapterKey pages =
     mountEffect localStorage (gistProgressKey gistId chapterKey) (length pages)"

definition ImgurReaderClient_mount ::
  "localStorage \<Rightarrow> string \<Rightarrow> 'a list \<Rightarrow> jsnum \<times> localStorage" where
  "ImgurReaderClient_mount localStorage albumId pages =
     mountEffect localStorage (imgurProgressKey albumId) (length pages)"

text \<open>The current page is one of the pages \<open>1 .. totalPages\<close>.\<close>

definition validPage :: "nat \<Rightarrow> jsnum \<Rightarrow> bool" where
  "validPage totalPages current =
     (case current of Fin r \<Rightarrow> 1 \<le> r \<and> r \<le> of_nat totalPages | _ \<Rightarrow> False)"


section \<open>Ordering of chapter keys\<close>

text \<open>
  The comparison function of \<^verbatim>\<open>sortChapterKeys\<close>: the difference of the two numbers,
  as the language computes it, when \<^verbatim>\<open>parseFloat\<close> reads a number in both keys, and
  \<^verbatim>\<open>localeCompare\<close> otherwise. \<^verbatim>\<open>localeCompare\<close> depends on the collation of the host
  and is a parameter.
\<close>

definition chapterKeyCompare :: "(string \<Rightarrow> string \<Rightarrow> int) \<Rightarrow> string \<Rightarrow> string \<Rightarrow> jsnum" where
  "chapterKeyCompare localeCompare a b =
     (let numA = parseFloat a; numB = parseFloat b
      in if \<not> isNaN numA \<and> \<not> isNaN numB then js_round (js_sub numA numB)
         else js_int (localeCompare a b))"

text \<open>
  \<^verbatim>\<open>Array.prototype.sort\<close> with a comparison function. The language fixes the result
  only where the function is a consistent comparison for the elements, in the words of
  ECMAScript: no comparison is \<open>NaN\<close>, every element is equal to itself, equality is
  symmetric, and equality, "less" and "greater" are transitive. The result is then the
  elements in ascending order, equal ones in their old order, which is what insertion
  from the left computes. Otherwise the order is left to the engine: the result is some
  rearrangement of the elements. So the sort is a relation between the array before and
  the array after.
\<close>

definition lessCF :: "('a \<Rightarrow> 'a \<Rightarrow> jsnum) \<Rightarrow> 'a \<Rightarrow> 'a \<Rightarrow> bool" where
  "lessCF comparefn a b = js_less (comparefn a b) (Fin 0)"

definition greaterCF :: "('a \<Rightarrow> 'a \<Rightarrow> jsnum) \<Rightarrow> 'a \<Rightarrow> 'a \<Rightarrow> bool" where
  "greaterCF comparefn a b = js_less (Fin 0) (comparefn a b)"

definition equalCF :: "('a \<Rightarrow> 'a \<Rightarrow> jsnum) \<Rightarrow> 'a \<Rightarrow> 'a \<Rightarrow> bool" where
  "equalCF comparefn a b = (comparefn a b = Fin 0)"

definition consistentComparator :: "('a \<Rightarrow> 'a \<Rightarrow> jsnum) \<Rightarrow> 'a set \<Rightarrow> bool" where
  "consistentComparator comparefn S =
     ((\<forall>a\<in>S. \<forall>b\<in>S. comparefn a b \<noteq> NaN)
      \<and> (\<forall>a\<in>S. equalCF comparefn a a)
      \<and> (\<forall>a\<in>S. \<forall>b\<in>S. equalCF comparefn a b \<longrightarrow> equalCF comparefn b a)
      \<and> (\<forall>a\<in>S. \<forall>b\<in>S. \<forall>c\<in>S.
            equalCF comparefn a b \<and> equalCF comparefn b c \<longrightarrow> equalCF comparefn a c)
      \<and> (\<forall>a\<in>S. \<forall>b\<in>S. \<forall>c\<in>S.
            lessCF comparefn a b \<and> lessCF comparefn b c \<longrightarrow> lessCF comparefn a c)
      \<and> (\<forall>a\<in>S. \<forall>b\<in>S. \<forall>c\<in>S.
            greaterCF comparefn a b \<and> greaterCF comparefn b c \<longrightarrow> greaterCF comparefn a c))"

fun insertSorted :: "('a \<Rightarrow> 'a \<Rightarrow> jsnum) \<Rightarrow> 'a \<Rightarrow> 'a list \<Rightarrow> 'a list" where
  "insertSorted comparefn x [] = [x]"
| "insertSorted comparefn x (y # ys) =
     (if lessCF comparefn x y then x # y # ys else y # insertSorted comparefn x ys)"

definition insertionSort :: "('a \<Rightarrow> 'a \<Rightarrow> jsnum) \<Rightarrow> 'a list \<Rightarrow> 'a list" where
  "insertionSort comparefn xs = foldl (\<lambda>acc x. insertSorted comparefn x acc) [] xs"

definition Array_sort :: "('a \<Rightarrow> 'a \<Rightarrow> jsnum) \<Rightarrow> 'a list \<Rightarrow> 'a list \<Rightarrow> bool" where
  "Array_sort comparefn before after =
     (mset after = mset before
      \<and> (consistentComparator comparefn (set before) \<longrightarrow> after = insertionSort comparefn before))"

text \<open>\<^verbatim>\<open>sortChapterKeys\<close>: the keys before and the keys after \<^verbatim>\<open>keys.sort(...)\<close>.\<close>

definition sortChapterKeys ::
  "(string \<Rightarrow> string \<Rightarrow> int) \<Rightarrow> string list \<Rightarrow> string list \<Rightarrow> bool" where
  "sortChapterKeys localeCompare keys result =
     Array_sort (chapterKeyCompare localeCompare) keys result"

text \<open>
  One collation to run the sort with: the lexicographic order of the code units, which on
  digits and lower-case letters agrees with the collations of \<^verbatim>\<open>localeCompare\<close>.
\<close>

fun codeUnitCompare :: "string \<Rightarrow> string \<Rightarrow> int" where
  "codeUnitCompare [] [] = 0"
| "codeUnitCompare [] (y # ys) = - 1"
| "codeUnitCompare (x # xs) [] = 1"
| "codeUnitCompare (x # xs) (y # ys) =
     (if (of_char x :: nat) < of_char y then - 1
      else if (of_char y :: nat) < of_char x then 1
      else codeUnitCompare xs ys)"


section \<open>Errors\<close>

text \<open>
  The program throws \<^verbatim>\<open>new Error(message)\<close>; the platform throws \<^verbatim>\<open>TypeError\<close> (a
  rejected \<^verbatim>\<open>fetch\<close>) and \<^verbatim>\<open>SyntaxError\<close> (text that is not JSON), and the schema
  library throws \<^verbatim>\<open>ZodError\<close> with the list of issues found. The message of an error
  that \<^verbatim>\<open>fetchGistConfig\<close> copies into a new \<^verbatim>\<open>Error\<close> is a text of the program or the
  message of one of the other three.
\<close>

datatype zod_code = invalid_type | too_small | invalid_string

type_synonym zod_issue = "string list \<times> zod_code"

datatype message =
    Msg string
  | MessageOfTypeError
  | MessageOfSyntaxError
  | MessageOfZodError "zod_issue list"

datatype error =
    Error message
  | TypeError
  | SyntaxError
  | ZodError "zod_issue list"

fun messageOf :: "error \<Rightarrow> message" where
  "messageOf (Error m) = m"
| "messageOf TypeError = MessageOfTypeError"
| "messageOf SyntaxError = MessageOfSyntaxError"
| "messageOf (ZodError issues) = MessageOfZodError issues"


section \<open>The manifest schema\<close>

text \<open>
  The schemas of \<^verbatim>\<open>gist.ts\<close>, each as the list of issues it finds in a value at a path
  (none when the value is accepted). \<^verbatim>\<open>z.string().url()\<close> accepts the strings that the
  \<^verbatim>\<open>URL\<close> constructor accepts, the parameter \<open>isUrl\<close>. Objects pass unknown properties
  through; \<^verbatim>\<open>optional()\<close> accepts \<^verbatim>\<open>undefined\<close>, the value of a missing property, and
  nothing else that the inner schema refuses. An object lists each property name once.
\<close>

definition z_string :: "string list \<Rightarrow> jsval \<Rightarrow> zod_issue list" where
  "z_string path v = (case v of JString s \<Rightarrow> [] | _ \<Rightarrow> [(path, invalid_type)])"

definition z_string_min1 :: "string list \<Rightarrow> jsval \<Rightarrow> zod_issue list" where
  "z_string_min1 path v =
     (case v of JString s \<Rightarrow> (if length s < 1 then [(path, too_small)] else [])
      | _ \<Rightarrow> [(path, invalid_type)])"

definition z_string_url :: "(string \<Rightarrow> bool) \<Rightarrow> string list \<Rightarrow> jsval \<Rightarrow> zod_issue list" where
  "z_string_url isUrl path v =
     (case v of JString s \<Rightarrow> (if isUrl s then [] else [(path, invalid_string)])
      | _ \<Rightarrow> [(path, invalid_type)])"

definition z_optional ::
  "(string list \<Rightarrow> jsval \<Rightarrow> zod_issue list) \<Rightarrow> string list \<Rightarrow> jsval \<Rightarrow> zod_issue list" where
  "z_optional schema path v = (if v = JUndefined then [] else schema path v)"

definition z_array ::
  "(string list \<Rightarrow> jsval \<Rightarrow> zod_issue list) \<Rightarrow> string list \<Rightarrow> jsval \<Rightarrow> zod_issue list" where
  "z_array schema path v =
     (case v of
        JArray xs \<Rightarrow>
          concat (map (\<lambda>(i, x). schema (path @ [NumberToString (int i)]) x) (enumerate 0 xs))
      | _ \<Rightarrow> [(path, invalid_type)])"

definition z_record ::
  "(string list \<Rightarrow> jsval \<Rightarrow> zod_issue list) \<Rightarrow> string list \<Rightarrow> jsval \<Rightarrow> zod_issue list" where
  "z_record schema path v =
     (case v of
        JObject fs \<Rightarrow> concat (map (\<lambda>(k, x). schema (path @ [k]) x) fs)
      | _ \<Rightarrow> [(path, invalid_type)])"

text \<open>The value of a property of an object, \<^verbatim>\<open>undefined\<close> when it is missing.\<close>

definition field :: "(string \<times> jsval) list \<Rightarrow> string \<Rightarrow> jsval" where
  "field fs name = (case map_of fs name of None \<Rightarrow> JUndefined | Some v \<Rightarrow> v)"

definition chapterSchema :: "(string \<Rightarrow> bool) \<Rightarrow> string list \<Rightarrow> jsval \<Rightarrow> zod_issue list" where
  "chapterSchema isUrl path v =
     (case v of
        JObject fs \<Rightarrow>
          z_string (path @ [''title'']) (field fs ''title'')
          @ z_optional z_string (path @ [''volume'']) (field fs ''volume'')
          @ z_record (z_array (z_string_url isUrl)) (path @ [''groups'']) (field fs ''groups'')
      | _ \<Rightarrow> [(path, invalid_type)])"

definition gistConfigSchema :: "(string \<Rightarrow> bool) \<Rightarrow> string list \<Rightarrow> jsval \<Rightarrow> zod_issue list" where
  "gistConfigSchema isUrl path v =
     (case v of
        JObject fs \<Rightarrow>
          z_string_min1 (path @ [''title'']) (field fs ''title'')
          @ z_optional z_string (path @ [''description'']) (field fs ''description'')
          @ z_optional z_string (path @ [''artist'']) (field fs ''artist'')
          @ z_optional z_string (path @ [''author'']) (field fs ''author'')
          @ z_optional (z_string_url isUrl) (path @ [''cover'']) (field fs ''cover'')
          @ z_record (chapterSchema isUrl) (path @ [''chapters'']) (field fs ''chapters'')
      | _ \<Rightarrow> [(path, invalid_type)])"

text \<open>
  \<^verbatim>\<open>gistConfigSchema.parse\<close>: it throws when there is an issue. The schemas transform
  nothing and set no default, so the value returned has the properties of the input (the
  library lists the declared ones first; records and arrays keep their order).
\<close>

definition gistConfigSchema_parse :: "(string \<Rightarrow> bool) \<Rightarrow> jsval \<Rightarrow> error + jsval" where
  "gistConfigSchema_parse isUrl v =
     (let issues = gistConfigSchema isUrl [] v
      in if issues = [] then Inr v else Inl (ZodError issues))"


section \<open>The server: caches and the network\<close>

text \<open>
  A response of \<^verbatim>\<open>fetch\<close>, with its decoded body. The bodies of the two APIs are typed
  as the program declares them (\<^verbatim>\<open>ImgurAlbumResponse\<close>, and the cast of a gist file to
  \<^verbatim>\<open>{ raw_url?: string; content?: string }\<close>), a property that the program guards
  being optional. The body of an API response is \<open>None\<close> when it is not JSON, so that
  \<^verbatim>\<open>response.json()\<close> throws a \<^verbatim>\<open>SyntaxError\<close>. Reading the text of a response succeeds.
\<close>

record 'a response =
  ok :: bool
  status :: nat
  statusText :: string
  body :: 'a

record ImgurImage =
  image_id :: string
  image_link :: string
  image_description :: "string option"
  image_type :: "string option"

record ImgurAlbumResponse =
  album_data :: "ImgurImage list option"
  album_success :: bool
  album_status :: nat

record GistFile =
  filename :: "string option"
  raw_url :: "string option"
  content :: "stored option"

record GistData =
  files :: "GistFile list option"

text \<open>
  The network answers a URL with a response, or with \<open>None\<close> when \<^verbatim>\<open>fetch\<close> rejects
  (a \<^verbatim>\<open>TypeError\<close>). The three kinds of request are the Imgur album API, the GitHub gist
  API and the raw content of a gist file.
\<close>

record network =
  fetchImgur :: "string \<Rightarrow> ImgurAlbumResponse option response option"
  fetchGist :: "string \<Rightarrow> GistData option response option"
  fetchRaw :: "string \<Rightarrow> stored response option"

text \<open>
  The state of the server process: the two module-level caches, and the log of the URLs
  given to \<^verbatim>\<open>fetch\<close>, one entry for each call.
\<close>

record server =
  albumCache :: "string \<Rightarrow> string list option"
  gistCache :: "string \<Rightarrow> jsval option"
  fetched :: "string list"

definition logFetch :: "string \<Rightarrow> server \<Rightarrow> server" where
  "logFetch url sv = sv\<lparr>fetched := fetched sv @ [url]\<rparr>"

text \<open>
  The callback of the \<^verbatim>\<open>setTimeout\<close> set at insertion, which runs an hour later:
  \<^verbatim>\<open>albumCache.delete(cacheKey)\<close> and \<^verbatim>\<open>gistCache.delete(cacheKey)\<close>.
\<close>

definition expireAlbum :: "string \<Rightarrow> server \<Rightarrow> server" where
  "expireAlbum cacheKey sv = sv\<lparr>albumCache := (albumCache sv)(cacheKey := None)\<rparr>"

definition expireGist :: "string \<Rightarrow> server \<Rightarrow> server" where
  "expireGist cacheKey sv = sv\<lparr>gistCache := (gistCache sv)(cacheKey := None)\<rparr>"


section \<open>The album fetcher\<close>

text \<open>\<^verbatim>\<open>img.type?.startsWith('image/')\<close>\<close>

definition isImage :: "ImgurImage \<Rightarrow> bool" where
  "isImage img = (case image_type img of None \<Rightarrow> False | Some t \<Rightarrow> startsWith t ''image/'')"

text \<open>The body of the \<^verbatim>\<open>try\<close> block, after the call of \<^verbatim>\<open>fetch\<close>.\<close>

definition imgurPages ::
  "string \<Rightarrow> ImgurAlbumResponse option response option \<Rightarrow> error + string list" where
  "imgurPages albumId r =
     (case r of
        None \<Rightarrow> Inl TypeError
      | Some response \<Rightarrow>
          if \<not> ok response then
            Inl (Error (Msg (''Failed to fetch Imgur album ('' @ NumberToString (int (status response))
                   @ ''): '' @ statusText response @ ''. Check album ID and Client ID.'')))
          else
            (case body response of
               None \<Rightarrow> Inl SyntaxError
             | Some data \<Rightarrow>
                 if \<not> album_success data then
                   Inl (Error (Msg (''Imgur API reported an issue with album '' @ albumId
                          @ ''. It might be private or invalid.'')))
                 else
                   (case album_data data of
                      None \<Rightarrow>
                        Inl (Error (Msg (''Unexpected response format from Imgur API for album ''
                               @ albumId @ ''.'')))
                    | Some imgs \<Rightarrow>
                        (let pages = map image_link (filter isImage imgs)
                         in if length pages = 0 then
                              Inl (Error (Msg (''No images found in Imgur album '' @ albumId @ ''.'')))
                            else Inr pages))))"

text \<open>
  \<^verbatim>\<open>fetchImgurAlbumPages\<close>. \<open>IMGUR_CLIENT_ID\<close> is the environment variable, missing or
  a string; \<^verbatim>\<open>!IMGUR_CLIENT_ID\<close> holds for a missing and for an empty one. The \<^verbatim>\<open>catch\<close>
  throws the error it caught.
\<close>

definition fetchImgurAlbumPages ::
  "string option \<Rightarrow> network \<Rightarrow> string \<Rightarrow> server \<Rightarrow> (error + string list) \<times> server" where
  "fetchImgurAlbumPages IMGUR_CLIENT_ID net albumId sv =
     (let cacheKey = ''imgur-'' @ albumId
      in case albumCache sv cacheKey of
           Some cached \<Rightarrow> (Inr cached, sv)
         | None \<Rightarrow>
             if IMGUR_CLIENT_ID = None \<or> IMGUR_CLIENT_ID = Some [] then
               (Inl (Error (Msg ''Imgur Client ID is missing. Please set IMGUR_CLIENT_ID in .env.local'')),
                sv)
             else
               (let apiUrl = ''https://api.imgur.com/3/album/'' @ albumId @ ''/images'';
                    sv1 = logFetch apiUrl sv
                in case imgurPages albumId (fetchImgur net apiUrl) of
                     Inl e \<Rightarrow> (Inl e, sv1)
                   | Inr pages \<Rightarrow>
                       (Inr pages,
                        if length pages > 0
                        then sv1\<lparr>albumCache := (albumCache sv1)(cacheKey \<mapsto> pages)\<rparr>
                        else sv1)))"


section \<open>The source resolver\<close>

definition isAlnum :: "char \<Rightarrow> bool" where
  "isAlnum c =
     (let n = (of_char c :: nat)
      in (97 \<le> n \<and> n \<le> 122) \<or> (65 \<le> n \<and> n \<le> 90) \<or> (48 \<le> n \<and> n \<le> 57))"

text \<open>
  The regular expression \<^verbatim>\<open>/\/proxy\/api\/imgur\/chapter\/([a-zA-Z0-9]+)\/?/\<close> is not
  anchored: it matches at the leftmost position where the literal prefix is followed by a
  letter or digit, and its group is the longest run of letters and digits there.
\<close>

definition imgurMatchAt :: "string \<Rightarrow> string option" where
  "imgurMatchAt s =
     (if startsWith s ''/proxy/api/imgur/chapter/''
      then (let run = takeWhile isAlnum (drop (length ''/proxy/api/imgur/chapter/'') s)
            in if run = [] then None else Some run)
      else None)"

fun imgurMatch :: "string \<Rightarrow> string option" where
  "imgurMatch [] = None"
| "imgurMatch (c # cs) =
     (case imgurMatchAt (c # cs) of Some albumId \<Rightarrow> Some albumId | None \<Rightarrow> imgurMatch cs)"

definition resolveSourcePages ::
  "string option \<Rightarrow> network \<Rightarrow> string \<Rightarrow> server \<Rightarrow> (error + string list) \<times> server" where
  "resolveSourcePages IMGUR_CLIENT_ID net sourcePath sv =
     (case imgurMatch sourcePath of
        Some albumId \<Rightarrow>
          (case fetchImgurAlbumPages IMGUR_CLIENT_ID net albumId sv of
             (Inl e, sv') \<Rightarrow>
               (Inl (Error (Msg (''Failed to load pages from Imgur album '' @ albumId @ ''.''))), sv')
           | (Inr pages, sv') \<Rightarrow> (Inr pages, sv'))
      | None \<Rightarrow> (Inl (Error (Msg (''Unsupported source path format: '' @ sourcePath))), sv))"


section \<open>The manifest fetcher\<close>

text \<open>Lower case of the letters \<^verbatim>\<open>A\<close> to \<^verbatim>\<open>Z\<close>; the other code units are kept.\<close>

definition toLowerCase :: "string \<Rightarrow> string" where
  "toLowerCase s =
     map (\<lambda>c. let n = (of_char c :: nat) in if 65 \<le> n \<and> n \<le> 90 then char_of (n + 32) else c) s"

text \<open>\<^verbatim>\<open>file.filename?.toLowerCase().endsWith('.json')\<close>\<close>

definition isJsonFile :: "GistFile \<Rightarrow> bool" where
  "isJsonFile file =
     (case filename file of None \<Rightarrow> False | Some name \<Rightarrow> endsWith (toLowerCase name) ''.json'')"

text \<open>
  The text of the chosen file: fetched from \<^verbatim>\<open>raw_url\<close> when that is a non-empty
  string, else the inline \<^verbatim>\<open>content\<close> when that is a non-empty text.
\<close>

definition gistFileContent ::
  "network \<Rightarrow> string \<Rightarrow> GistFile \<Rightarrow> server \<Rightarrow> (error + stored) \<times> server" where
  "gistFileContent net gistId jsonFile sv =
     (if raw_url jsonFile \<noteq> None \<and> raw_url jsonFile \<noteq> Some [] then
        (let url = the (raw_url jsonFile);
             sv1 = logFetch url sv
         in case fetchRaw net url of
              None \<Rightarrow> (Inl TypeError, sv1)
            | Some contentResponse \<Rightarrow>
                if \<not> ok contentResponse then
                  (Inl (Error (Msg (''Failed to fetch Gist raw content from '' @ url))), sv1)
                else (Inr (body contentResponse), sv1))
      else
        (case content jsonFile of
           None \<Rightarrow>
             (Inl (Error (Msg (''Could not retrieve file content for JSON file in Gist (ID: ''
                     @ gistId @ '').''))), sv)
         | Some c \<Rightarrow>
             if raw c = [] then
               (Inl (Error (Msg (''Could not retrieve file content for JSON file in Gist (ID: ''
                       @ gistId @ '').''))), sv)
             else (Inr c, sv)))"

text \<open>The \<^verbatim>\<open>try\<close> block of \<^verbatim>\<open>fetchGistConfig\<close>, which ends by filling the cache.\<close>

definition fetchGistConfigTry ::
  "(string \<Rightarrow> bool) \<Rightarrow> network \<Rightarrow> string \<Rightarrow> server \<Rightarrow> (error + jsval) \<times> server" where
  "fetchGistConfigTry isUrl net gistId sv =
     (let apiUrl = ''https://api.github.com/gists/'' @ gistId;
          sv1 = logFetch apiUrl sv
      in case fetchGist net apiUrl of
           None \<Rightarrow> (Inl TypeError, sv1)
         | Some response \<Rightarrow>
             if \<not> ok response then
               (if status response = 404 then
                  (Inl (Error (Msg (''Gist not found (ID: '' @ gistId
                          @ ''). Check the ID or if the Gist is public.''))), sv1)
                else
                  (Inl (Error (Msg (''Failed to fetch Gist (ID: '' @ gistId @ '', Status: ''
                          @ NumberToString (int (status response)) @ '')''))), sv1))
             else
               (case body response of
                  None \<Rightarrow> (Inl SyntaxError, sv1)
                | Some gistData \<Rightarrow>
                    (case files gistData of
                       None \<Rightarrow>
                         (Inl (Error (Msg (''Invalid Gist data received for ID: '' @ gistId
                                 @ ''. No files found.''))), sv1)
                     | Some fs \<Rightarrow>
                         (case find isJsonFile fs of
                            None \<Rightarrow>
                              (Inl (Error (Msg (''No JSON file found in Gist (ID: '' @ gistId
                                      @ ''). Please ensure the Gist contains a .json file.''))), sv1)
                          | Some jsonFile \<Rightarrow>
                              (case gistFileContent net gistId jsonFile sv1 of
                                 (Inl e, sv2) \<Rightarrow> (Inl e, sv2)
                               | (Inr fileContent, sv2) \<Rightarrow>
                                   (case parsed fileContent of
                                      None \<Rightarrow> (Inl SyntaxError, sv2)
                                    | Some parsedConfig \<Rightarrow>
                                        (case gistConfigSchema_parse isUrl parsedConfig of
                                           Inl e \<Rightarrow> (Inl e, sv2)
                                         | Inr validatedConfig \<Rightarrow>
                                             (Inr validatedConfig,
                                              sv2\<lparr>gistCache :=
                                                (gistCache sv2)(''gist-'' @ gistId \<mapsto> validatedConfig)\<rparr>))))))))"

text \<open>
  \<^verbatim>\<open>fetchGistConfig\<close>: the cache first; the \<^verbatim>\<open>catch\<close> throws a new \<^verbatim>\<open>Error\<close> with the
  message of the error it caught.
\<close>

definition fetchGistConfig ::
  "(string \<Rightarrow> bool) \<Rightarrow> network \<Rightarrow> string \<Rightarrow> server \<Rightarrow> (error + jsval) \<times> server" where
  "fetchGistConfig isUrl net gistId sv =
     (let cacheKey = ''gist-'' @ gistId
      in case gistCache sv cacheKey of
           Some cached \<Rightarrow> (Inr cached, sv)
         | None \<Rightarrow>
             (case fetchGistConfigTry isUrl net gistId sv of
                (Inl err, sv') \<Rightarrow> (Inl (Error (messageOf err)), sv')
              | (Inr validatedConfig, sv') \<Rightarrow> (Inr validatedConfig, sv')))"


section \<open>Sample inputs\<close>

text \<open>Concrete servers, networks and stores, at which the theorems below are run.\<close>

definition freshServer :: server where
  "freshServer = \<lparr>albumCache = Map.empty, gistCache = Map.empty, fetched = []\<rparr>"

definition okResponse :: "'a \<Rightarrow> 'a response" where
  "okResponse b = \<lparr>ok = True, status = 200, statusText = ''OK'', body = b\<rparr>"

definition png :: "string \<Rightarrow> ImgurImage" where
  "png name =
     \<lparr>image_id = name, image_link = ''https://i.imgur.com/'' @ name @ ''.png'',
      image_description = None, image_type = Some ''image/png''\<rparr>"

definition mp4 :: "string \<Rightarrow> ImgurImage" where
  "mp4 name =
     \<lparr>image_id = name, image_link = ''https://i.imgur.com/'' @ name @ ''.mp4'',
      image_description = None, image_type = Some ''video/mp4''\<rparr>"

text \<open>An Imgur API that answers every album with the given entries.\<close>

definition albumNetwork :: "ImgurImage list \<Rightarrow> network" where
  "albumNetwork imgs =
     \<lparr>fetchImgur = (\<lambda>url. Some (okResponse (Some
          \<lparr>album_data = Some imgs, album_success = True, album_status = 200\<rparr>))),
      fetchGist = (\<lambda>url. None),
      fetchRaw = (\<lambda>url. None)\<rparr>"



text \<open>A gist API that answers every gist with one file, served from its raw URL.\<close>

definition gistNetwork :: "stored \<Rightarrow> network" where
  "gistNetwork fileText =
     \<lparr>fetchImgur = (\<lambda>url. None),
      fetchGist = (\<lambda>url. Some (okResponse (Some
          \<lparr>files = Some [\<lparr>filename = Some ''manga.json'',
                           raw_url = Some ''https://gist.githubusercontent.com/raw/manga.json'',
                           content = None\<rparr>]\<rparr>))),
      fetchRaw = (\<lambda>url. Some (okResponse fileText))\<rparr>"

text \<open>A URL test to run the schema with: the strings that start with \<^verbatim>\<open>https://\<close>.\<close>

definition httpsUrl :: "string \<Rightarrow> bool" where
  "httpsUrl s = (startsWith s ''https://'' \<and> length s > 8)"

text \<open>Stores that hold one progress record under the key of gist \<^verbatim>\<open>g\<close>, chapter \<^verbatim>\<open>1\<close>.\<close>

definition storeWith :: "stored \<Rightarrow> localStorage" where
  "storeWith item = Map.empty(gistProgressKey ''g'' ''1'' \<mapsto> item)"

definition progress5of10 :: stored where
  \<open>progress5of10 =
     Stored ''{"page":5,"totalPages":10,"lastRead":"2025-01-01T00:00:00.000Z"}''
       (Some (JObject [(''page'', JNumber (Fin 5)), (''totalPages'', JNumber (Fin 10)),
                       (''lastRead'', JString ''2025-01-01T00:00:00.000Z'')]))\<close>

definition progressPageAbc :: stored where
  \<open>progressPageAbc =
     Stored ''{"page":"abc","totalPages":10}''
       (Some (JObject [(''page'', JString ''abc''), (''totalPages'', JNumber (Fin 10))]))\<close>

definition progressCorrupt :: stored where
  \<open>progressCorrupt = Stored ''{"page":5,'' None\<close>

definition progressEmptyText :: stored where
  "progressEmptyText = Stored [] None"


section \<open>Predicates of the statements\<close>

text \<open>
  The grammar of ECMAScript for \<^verbatim>\<open>StrDecimalLiteral\<close>, with the number that each
  literal denotes (its mathematical value, rounded to binary64):
  \<^verbatim>\<open>
  StrDecimalLiteral         ::: StrUnsignedDecimalLiteral
                                + StrUnsignedDecimalLiteral
                                - StrUnsignedDecimalLiteral
  StrUnsignedDecimalLiteral ::: Infinity
                                DecimalDigits . DecimalDigits(opt) ExponentPart(opt)
                                . DecimalDigits ExponentPart(opt)
                                DecimalDigits ExponentPart(opt)
  ExponentPart              ::: ExponentIndicator SignedInteger
  ExponentIndicator         ::: one of e E
  SignedInteger             ::: DecimalDigits
                                + DecimalDigits
                                - DecimalDigits
  \<close>
\<close>

definition decimalDigits :: "string \<Rightarrow> bool" where
  "decimalDigits ds = (ds \<noteq> [] \<and> list_all isDigit ds)"

inductive exponentPart :: "string \<Rightarrow> int \<Rightarrow> bool" where
  unsignedExponent:
    "decimalDigits ds \<Longrightarrow> c = CHR ''e'' \<or> c = CHR ''E'' \<Longrightarrow>
       exponentPart (c # ds) (int (digitsVal ds))"
| plusExponent:
    "decimalDigits ds \<Longrightarrow> c = CHR ''e'' \<or> c = CHR ''E'' \<Longrightarrow>
       exponentPart (c # CHR ''+'' # ds) (int (digitsVal ds))"
| minusExponent:
    "decimalDigits ds \<Longrightarrow> c = CHR ''e'' \<or> c = CHR ''E'' \<Longrightarrow>
       exponentPart (c # CHR ''-'' # ds) (- int (digitsVal ds))"

inductive optExponentPart :: "string \<Rightarrow> int \<Rightarrow> bool" where
  noExponent: "optExponentPart [] 0"
| someExponent: "exponentPart x e \<Longrightarrow> optExponentPart x e"

text \<open>
  The mathematical value of integer digits \<open>ip\<close>, fraction digits \<open>fp\<close> and exponent \<open>e\<close>.
\<close>

definition decimalValue :: "string \<Rightarrow> string \<Rightarrow> int \<Rightarrow> rat" where
  "decimalValue ip fp e =
     (of_nat (digitsVal ip) + of_nat (digitsVal fp) / 10 ^ length fp) * pow10 e"

inductive strUnsignedDecimalLiteral :: "string \<Rightarrow> jsnum \<Rightarrow> bool" where
  infinityLiteral:
    "strUnsignedDecimalLiteral ''Infinity'' PosInf"
| pointLiteral:
    "decimalDigits ip \<Longrightarrow> list_all isDigit fp \<Longrightarrow> optExponentPart x e \<Longrightarrow>
       strUnsignedDecimalLiteral (ip @ CHR ''.'' # fp @ x) (round64 (decimalValue ip fp e))"
| fractionLiteral:
    "decimalDigits fp \<Longrightarrow> optExponentPart x e \<Longrightarrow>
       strUnsignedDecimalLiteral (CHR ''.'' # fp @ x) (round64 (decimalValue [] fp e))"
| integerLiteral:
    "decimalDigits ip \<Longrightarrow> optExponentPart x e \<Longrightarrow>
       strUnsignedDecimalLiteral (ip @ x) (round64 (decimalValue ip [] e))"

inductive strDecimalLiteral :: "string \<Rightarrow> jsnum \<Rightarrow> bool" where
  unsignedLiteral: "strUnsignedDecimalLiteral u v \<Longrightarrow> strDecimalLiteral u v"
| plusLiteral: "strUnsignedDecimalLiteral u v \<Longrightarrow> strDecimalLiteral (CHR ''+'' # u) v"
| minusLiteral: "strUnsignedDecimalLiteral u v \<Longrightarrow> strDecimalLiteral (CHR ''-'' # u) (js_neg v)"

text \<open>
  \<open>longestLiteralPrefix t p v\<close>: \<open>p\<close> is a literal of value \<open>v\<close> at the start of \<open>t\<close>, and
  no literal at the start of \<open>t\<close> is longer. \<open>noLiteralPrefix t\<close>: no literal starts \<open>t\<close>.
\<close>

definition longestLiteralPrefix :: "string \<Rightarrow> string \<Rightarrow> jsnum \<Rightarrow> bool" where
  "longestLiteralPrefix t p v =
     (strDecimalLiteral p v \<and> take (length p) t = p
      \<and> (\<forall>q w. strDecimalLiteral q w \<and> take (length q) t = q \<longrightarrow> length q \<le> length p))"

definition noLiteralPrefix :: "string \<Rightarrow> bool" where
  "noLiteralPrefix t = (\<forall>q w. strDecimalLiteral q w \<longrightarrow> take (length q) t \<noteq> q)"

text \<open>
  A finite number is on the binary64 grid when it is a multiple of \<open>2\<^sup>-\<^sup>1\<^sup>0\<^sup>7\<^sup>4\<close>, as every
  finite binary64 value is.
\<close>

definition onGrid :: "rat \<Rightarrow> bool" where
  "onGrid r = (\<exists>m :: int. r = of_int m * pow2 (- 1074))"

text \<open>The URLs that the two fetchers give to \<^verbatim>\<open>fetch\<close> first.\<close>

definition imgurApiUrl :: "string \<Rightarrow> string" where
  "imgurApiUrl albumId = ''https://api.imgur.com/3/album/'' @ albumId @ ''/images''"


text \<open>
  \<open>missingTitle v\<close>: the value has no property \<^verbatim>\<open>title\<close> (as any value that is not an
  object).
\<close>

definition missingTitle :: "jsval \<Rightarrow> bool" where
  "missingTitle v = (case v of JObject fs \<Rightarrow> map_of fs ''title'' = None | _ \<Rightarrow> True)"

definition isArray :: "jsval \<Rightarrow> bool" where
  "isArray v = (case v of JArray xs \<Rightarrow> True | _ \<Rightarrow> False)"

text \<open>
  \<open>groupsNotArrays chapter\<close>: the \<^verbatim>\<open>groups\<close> of the chapter object are not a mapping to
  arrays, that is, one of the groups has a value that is not an array, or \<^verbatim>\<open>groups\<close> is
  no object at all. \<open>hasGroupsNotArrays v\<close>: the manifest has such a chapter.
\<close>

definition groupsNotArrays :: "jsval \<Rightarrow> bool" where
  "groupsNotArrays chapter =
     (case chapter of
        JObject ch \<Rightarrow>
          (case field ch ''groups'' of
             JObject gs \<Rightarrow> list_ex (\<lambda>(name, pages). \<not> isArray pages) gs
           | _ \<Rightarrow> True)
      | _ \<Rightarrow> False)"

definition hasGroupsNotArrays :: "jsval \<Rightarrow> bool" where
  "hasGroupsNotArrays v =
     (case v of
        JObject fs \<Rightarrow>
          (case field fs ''chapters'' of
             JObject cs \<Rightarrow> list_ex (\<lambda>(key, chapter). groupsNotArrays chapter) cs
           | _ \<Rightarrow> False)
      | _ \<Rightarrow> False)"

text \<open>
  Two manifests that the schema refuses: one without a title, and one whose group holds
  a source path, a string, where the schema wants an array of URLs.
\<close>

definition manifestNoTitle :: jsval where
  "manifestNoTitle = JObject [(''chapters'', JObject [])]"

definition manifestPathGroup :: jsval where
  "manifestPathGroup =
     JObject [(''title'', JString ''T''),
              (''chapters'', JObject [(''1'', JObject [(''title'', JString ''One''),
                 (''groups'', JObject [(''g'', JString ''/proxy/api/imgur/chapter/abc123/'')])])])]"


section \<open>Navigation\<close>

lemma goToNextPage_int:
  "goToNextPage viewMode totalPages (js_int p) =
     js_int (min (p + (if viewMode = Double then 2 else 1)) (int totalPages))"
  by (auto simp add: goToNextPage_def getPageIncrement_def Math_min_def js_int_def js_nat_def min_def)

lemma goToPrevPage_int:
  "goToPrevPage viewMode (js_int p) = js_int (max 1 (p - (if viewMode = Double then 2 else 1)))"
  by (auto simp add: goToPrevPage_def getPageIncrement_def Math_max_def js_int_def js_sub_def max_def)

lemma repeated_fixed: "f x = x \<Longrightarrow> repeated n f x = x"
  by (induction n) auto

lemma goToPrevPage_first: "goToPrevPage viewMode (Fin 1) = Fin 1"
  by (simp add: goToPrevPage_def getPageIncrement_def Math_max_def js_sub_def)

lemma goToNextPage_last: "goToNextPage viewMode totalPages (js_nat totalPages) = js_nat totalPages"
  by (simp add: goToNextPage_def getPageIncrement_def Math_min_def js_nat_def)

text \<open>
  Claim C1, as the program has it. With 10 pages in double view, "next" from page 9 moves
  to page 10 and every further "next" stays there, so that page 11 is never reached;
  "prev" from page 1 stays at page 1. In general an advance moves an integer page \<open>p\<close> to
  \<open>min (p + step) totalPages\<close> and a retreat to \<open>max 1 (p - step)\<close>, the step being 1 in
  single and 2 in double view; a retreat from page 1 and an advance from the last page
  change nothing.
\<close>

theorem navigation_clamping:
  "repeated (Suc n) (goToNextPage Double 10) (Fin 9) = Fin 10
   \<and> repeated n (goToPrevPage Double) (Fin 1) = Fin 1
   \<and> goToNextPage viewMode totalPages (js_int p) =
       js_int (min (p + (if viewMode = Double then 2 else 1)) (int totalPages))
   \<and> goToPrevPage viewMode (js_int p) =
       js_int (max 1 (p - (if viewMode = Double then 2 else 1)))
   \<and> goToPrevPage viewMode (Fin 1) = Fin 1
   \<and> goToNextPage viewMode totalPages (js_nat totalPages) = js_nat totalPages"
proof -
  have a: "goToNextPage Double 10 (Fin 9) = Fin 10"
    by (simp add: goToNextPage_def getPageIncrement_def Math_min_def js_nat_def)
  have b: "goToNextPage Double 10 (Fin 10) = Fin 10"
    by (simp add: goToNextPage_def getPageIncrement_def Math_min_def js_nat_def)
  have "repeated (Suc n) (goToNextPage Double 10) (Fin 9) = Fin 10"
    using repeated_fixed [of "goToNextPage Double 10" "Fin 10" n] by (simp add: a b)
  moreover have "repeated n (goToPrevPage Double) (Fin 1) = Fin 1"
    by (rule repeated_fixed) (rule goToPrevPage_first)
  ultimately show ?thesis
    using goToNextPage_int goToPrevPage_int goToPrevPage_first goToNextPage_last by blast
qed

text \<open>
  Claim C1 as it is written fails: "next" from page 9 of 10 in double view does not stop
  at page 9, it moves to page 10.
\<close>

theorem navigation_next_from_9_counterexample:
  "goToNextPage Double 10 (Fin 9) = Fin 10 \<and> goToNextPage Double 10 (Fin 9) \<noteq> Fin 9"
  by (simp add: goToNextPage_def getPageIncrement_def Math_min_def js_nat_def)


section \<open>The page counter\<close>

text \<open>
  Claim C5, as the program has it. For a page list that is not empty the label is
  \<^verbatim>\<open>current / total\<close> in single view and, in double view, \<^verbatim>\<open>current-current+1 / total\<close>
  unless the current page is the last one (or beyond), where it is the single form: with 7
  pages in double view, page 6 gives \<^verbatim>\<open>6-7 / 7\<close> and page 7 gives \<^verbatim>\<open>7 / 7\<close>. For the
  empty page list the label is \<^verbatim>\<open>0 / 0\<close> in both views, whatever the current page.
\<close>

theorem page_display_label:
  "getPageDisplay Single (Suc t) c = NumberToString c @ '' / '' @ NumberToString (int (Suc t))
   \<and> getPageDisplay Double (Suc t) c =
       (if c \<ge> int (Suc t) then NumberToString c @ '' / '' @ NumberToString (int (Suc t))
        else NumberToString c @ ''-'' @ NumberToString (c + 1) @ '' / ''
               @ NumberToString (int (Suc t)))
   \<and> getPageDisplay Double 7 6 = ''6-7 / 7''
   \<and> getPageDisplay Double 7 7 = ''7 / 7''
   \<and> getPageDisplay viewMode 0 c = ''0 / 0''"
proof -
  have "getPageDisplay Double 7 6 = ''6-7 / 7''" by code_simp
  moreover have "getPageDisplay Double 7 7 = ''7 / 7''" by code_simp
  ultimately show ?thesis by (simp add: getPageDisplay_def)
qed

text \<open>
  Claim C5 as it is written fails for the empty page list: a session mounted on no pages
  is at page 1, and in single view its label is \<^verbatim>\<open>0 / 0\<close>, not \<^verbatim>\<open>1 / 0\<close>.
\<close>

theorem page_display_empty_counterexample:
  "fst (ImgurReaderClient_mount Map.empty ''a'' ([] :: string list)) = js_int 1
   \<and> getPageDisplay Single (length ([] :: string list)) 1 = ''0 / 0''
   \<and> getPageDisplay Single (length ([] :: string list)) 1
       \<noteq> NumberToString 1 @ '' / '' @ NumberToString 0"
  by (simp add: ImgurReaderClient_mount_def mountEffect_def js_int_def getPageDisplay_def
      NumberToString_def digits10.simps digitChar_def)


section \<open>Resuming from stored progress\<close>

text \<open>
  Claim C4. A stored record that parses to an object with \<^verbatim>\<open>page: 5\<close> seeds the current
  page at 5 when the chapter has 10 pages and at 3 when it has 3 pages, and leaves the
  store as it is; without a record the current page is seeded at 1.
\<close>

theorem progress_resume:
  assumes "localStorage progressKey = Some savedProgress"
    and "raw savedProgress \<noteq> []"
    and "parsed savedProgress = Some progress"
    and "getProp progress ''page'' = Some (JNumber (Fin 5))"
  shows "mountEffect localStorage progressKey 10 = (Fin 5, localStorage)
    \<and> mountEffect localStorage progressKey 3 = (Fin 3, localStorage)
    \<and> mountEffect (localStorage(progressKey := None)) progressKey n
         = (Fin 1, localStorage(progressKey := None))"
  using assms
  by (simp add: mountEffect_def orOne_def ToNumber_def lengthOrOne_def js_nat_def
      Math_min_def Math_max_def)

theorem progress_resume_witness:
  "GistReaderClient_mount (storeWith progress5of10) ''g'' ''1'' (replicate 10 ''p'')
      = (Fin 5, storeWith progress5of10)
   \<and> GistReaderClient_mount (storeWith progress5of10) ''g'' ''1'' (replicate 3 ''p'')
      = (Fin 3, storeWith progress5of10)
   \<and> GistReaderClient_mount Map.empty ''g'' ''1'' (replicate 10 ''p'') = (Fin 1, Map.empty)"
proof -
  have k: "storeWith progress5of10 (gistProgressKey ''g'' ''1'') = Some progress5of10"
    by (simp add: storeWith_def)
  have e: "(storeWith progress5of10)(gistProgressKey ''g'' ''1'' := None) = Map.empty"
    by (simp add: storeWith_def)
  have r: "raw progress5of10 \<noteq> []" by (simp add: progress5of10_def)
  have p: "parsed progress5of10 = Some (JObject [(''page'', JNumber (Fin 5)),
      (''totalPages'', JNumber (Fin 10)), (''lastRead'', JString ''2025-01-01T00:00:00.000Z'')])"
    by (simp add: progress5of10_def)
  have g: "getProp (JObject [(''page'', JNumber (Fin 5)), (''totalPages'', JNumber (Fin 10)),
      (''lastRead'', JString ''2025-01-01T00:00:00.000Z'')]) ''page'' = Some (JNumber (Fin 5))"
    by simp
  show ?thesis
    using progress_resume [of "storeWith progress5of10" "gistProgressKey ''g'' ''1''" progress5of10
        "JObject [(''page'', JNumber (Fin 5)), (''totalPages'', JNumber (Fin 10)),
           (''lastRead'', JString ''2025-01-01T00:00:00.000Z'')]" 10] k r p g
    by (simp add: GistReaderClient_mount_def e)
qed

text \<open>
  Claim C10, as the program has it. When the text stored under the progress key is not
  JSON, the mount seeds the current page at 1 and does not throw; it removes the item
  from the store when the text is not empty, and leaves an empty text in place.
\<close>

theorem mount_corrupt_record:
  assumes "localStorage progressKey = Some savedProgress"
    and "parsed savedProgress = None"
  shows "mountEffect localStorage progressKey n =
     (Fin 1, if raw savedProgress = [] then localStorage else localStorage(progressKey := None))"
  using assms by (simp add: mountEffect_def)

theorem mount_corrupt_record_witness:
  "GistReaderClient_mount (storeWith progressCorrupt) ''g'' ''1'' (replicate 10 ''p'')
     = (Fin 1, Map.empty)"
proof -
  have k: "storeWith progressCorrupt (gistProgressKey ''g'' ''1'') = Some progressCorrupt"
    by (simp add: storeWith_def)
  have p: "parsed progressCorrupt = None" by (simp add: progressCorrupt_def)
  have e: "(storeWith progressCorrupt)(gistProgressKey ''g'' ''1'' := None) = Map.empty"
    by (simp add: storeWith_def)
  have r: "raw progressCorrupt \<noteq> []" by (simp add: progressCorrupt_def)
  show ?thesis
    using mount_corrupt_record
      [of "storeWith progressCorrupt" "gistProgressKey ''g'' ''1''" progressCorrupt 10] k p r
    by (simp add: GistReaderClient_mount_def e)
qed

text \<open>
  Claim C10 as it is written fails for the empty text: the item exists, it is not JSON,
  and the mount leaves it in the store (\<^verbatim>\<open>if (savedProgress)\<close> is false for it).
\<close>

theorem mount_empty_text_counterexample:
  "storeWith progressEmptyText (gistProgressKey ''g'' ''1'') = Some progressEmptyText
   \<and> parsed progressEmptyText = None
   \<and> mountEffect (storeWith progressEmptyText) (gistProgressKey ''g'' ''1'') 10
       = (Fin 1, storeWith progressEmptyText)
   \<and> snd (mountEffect (storeWith progressEmptyText) (gistProgressKey ''g'' ''1'') 10)
       (gistProgressKey ''g'' ''1'') \<noteq> None"
  by (simp add: storeWith_def progressEmptyText_def mountEffect_def)


section \<open>The current page stays a page\<close>

text \<open>Navigation keeps a valid page valid, in both views.\<close>

lemma navigation_validPage:
  assumes "validPage totalPages current"
  shows "validPage totalPages (goToNextPage viewMode totalPages current)
       \<and> validPage totalPages (goToPrevPage viewMode current)"
  using assms
  by (cases current)
     (auto simp add: validPage_def goToNextPage_def goToPrevPage_def Math_min_def Math_max_def
       js_sub_def getPageIncrement_def js_nat_def)

text \<open>The mount on a page list that is not empty seeds a valid page, unless it seeds \<open>NaN\<close>.\<close>

lemma mount_validPage:
  assumes "0 < pagesLength"
    and "fst (mountEffect localStorage progressKey pagesLength) \<noteq> NaN"
  shows "validPage pagesLength (fst (mountEffect localStorage progressKey pagesLength))"
  using assms
  apply (simp add: mountEffect_def validPage_def lengthOrOne_def js_nat_def
      split: option.splits if_splits)
  apply (auto simp add: Math_min_def Math_max_def split: if_splits jsnum.splits)
  done

lemma StringToNumber_abc: "StringToNumber ''abc'' = NaN"
  by code_simp

text \<open>
  Claim C9 fails on the program at a stored record whose \<^verbatim>\<open>page\<close> is a string that is
  no number, as in \<^verbatim>\<open>{"page":"abc","totalPages":10}\<close>: the text is JSON, \<^verbatim>\<open>"abc" || 1\<close>
  is \<^verbatim>\<open>"abc"\<close>, \<^verbatim>\<open>Math.min("abc", 10)\<close> is \<open>NaN\<close> and so is \<^verbatim>\<open>Math.max(1, NaN)\<close>. The
  mount on 10 pages seeds the current page at \<open>NaN\<close>, which is none of the pages 1 to 10,
  and keeps the record; every advance and retreat leaves the page at \<open>NaN\<close>.
\<close>

theorem mount_page_not_a_number:
  "GistReaderClient_mount (storeWith progressPageAbc) ''g'' ''1'' (replicate 10 ''p'')
     = (NaN, storeWith progressPageAbc)
   \<and> \<not> validPage 10 NaN
   \<and> goToNextPage viewMode 10 NaN = NaN
   \<and> goToPrevPage viewMode NaN = NaN"
proof -
  have "GistReaderClient_mount (storeWith progressPageAbc) ''g'' ''1'' (replicate 10 ''p'')
     = (NaN, storeWith progressPageAbc)"
    by (simp add: GistReaderClient_mount_def storeWith_def progressPageAbc_def mountEffect_def
        orOne_def ToNumber_def StringToNumber_abc Math_min_def Math_max_def)
  then show ?thesis
    by (simp add: validPage_def goToNextPage_def goToPrevPage_def Math_min_def Math_max_def
        js_sub_def getPageIncrement_def)
qed


section \<open>The album fetcher: failures and the cache\<close>





lemma album_miss_need_network:
  assumes "albumCache sv (''imgur-'' @ albumId) = None" "IMGUR_CLIENT_ID = Some c" "c \<noteq> []"
  shows "fetched (snd (fetchImgurAlbumPages IMGUR_CLIENT_ID net albumId sv))
     = fetched sv @ [imgurApiUrl albumId]"
  using assms
  by (auto simp add: fetchImgurAlbumPages_def Let_def logFetch_def imgurApiUrl_def
      split: option.splits sum.splits if_splits)





section \<open>The caches: hits and second fetches\<close>







text \<open>Once the expiry callback has run, a fetch with a client id calls the network again.\<close>

lemma album_expired_refetch:
  assumes "IMGUR_CLIENT_ID = Some c" and "c \<noteq> []"
  shows "fetched (snd (fetchImgurAlbumPages IMGUR_CLIENT_ID net albumId
           (expireAlbum (''imgur-'' @ albumId) sv)))
         = fetched sv @ [imgurApiUrl albumId]"
proof -
  have "albumCache (expireAlbum (''imgur-'' @ albumId) sv) (''imgur-'' @ albumId) = None"
    by (simp add: expireAlbum_def)
  from album_miss_need_network [OF this assms]
  show ?thesis by (simp add: expireAlbum_def)
qed











section \<open>The source resolver: what is proved\<close>

lemma imgurMatch_proxy_path:
  assumes "albumId \<noteq> []" and "list_all isAlnum albumId"
  shows "imgurMatch (''/proxy/api/imgur/chapter/'' @ albumId @ ''/'') = Some albumId"
proof -
  have d: "\<And>x. x \<in> set albumId \<Longrightarrow> isAlnum x"
    using assms(2) by (simp add: list_all_iff)
  have s: "\<not> isAlnum CHR ''/''" by (simp add: isAlnum_def)
  have "takeWhile isAlnum (albumId @ ''/'') = albumId"
    using d s by (simp add: takeWhile_append2)
  then have "imgurMatchAt (''/proxy/api/imgur/chapter/'' @ albumId @ ''/'') = Some albumId"
    using assms(1) by (simp add: imgurMatchAt_def startsWith_def)
  then show ?thesis by simp
qed

text \<open>
  Claim C3, as the program has it. A descriptor \<^verbatim>\<open>/proxy/api/imgur/chapter/{albumId}/\<close>,
  the id being letters and digits, resolves through the album fetcher with that id (a
  failure of the fetcher is reported as \<^verbatim>\<open>Failed to load pages from Imgur album ...\<close>);
  a descriptor that the pattern does not match fails with
  \<^verbatim>\<open>Unsupported source path format: \<close> followed by the whole descriptor, and leaves the
  server as it is.
\<close>

theorem source_resolution:
  "(albumId \<noteq> [] \<and> list_all isAlnum albumId \<longrightarrow>
      resolveSourcePages IMGUR_CLIENT_ID net (''/proxy/api/imgur/chapter/'' @ albumId @ ''/'') sv =
        (case fetchImgurAlbumPages IMGUR_CLIENT_ID net albumId sv of
           (Inl e, sv') \<Rightarrow>
             (Inl (Error (Msg (''Failed to load pages from Imgur album '' @ albumId @ ''.''))), sv')
         | (Inr pages, sv') \<Rightarrow> (Inr pages, sv')))
   \<and> (imgurMatch sourcePath = None \<longrightarrow>
      resolveSourcePages IMGUR_CLIENT_ID net sourcePath sv =
        (Inl (Error (Msg (''Unsupported source path format: '' @ sourcePath))), sv))"
  using imgurMatch_proxy_path [of albumId]
  by (simp add: resolveSourcePages_def)

lemma fetch_two_images:
  "fetchImgurAlbumPages (Some ''client'') (albumNetwork [png ''p1'', mp4 ''v'', png ''p2'']) ''abc123''
     freshServer =
   (Inr [''https://i.imgur.com/p1.png'', ''https://i.imgur.com/p2.png''],
    \<lparr>albumCache = Map.empty(''imgur-abc123'' \<mapsto>
        [''https://i.imgur.com/p1.png'', ''https://i.imgur.com/p2.png'']),
     gistCache = Map.empty,
     fetched = [''https://api.imgur.com/3/album/abc123/images'']\<rparr>)"
  by (simp add: fetchImgurAlbumPages_def freshServer_def albumNetwork_def okResponse_def
      imgurPages_def logFetch_def isImage_def png_def mp4_def startsWith_def)

theorem source_resolution_witness:
  "resolveSourcePages (Some ''client'') (albumNetwork [png ''p1'', mp4 ''v'', png ''p2''])
      ''/proxy/api/imgur/chapter/abc123/'' freshServer =
     (Inr [''https://i.imgur.com/p1.png'', ''https://i.imgur.com/p2.png''],
      \<lparr>albumCache = Map.empty(''imgur-abc123'' \<mapsto>
          [''https://i.imgur.com/p1.png'', ''https://i.imgur.com/p2.png'']),
       gistCache = Map.empty,
       fetched = [''https://api.imgur.com/3/album/abc123/images'']\<rparr>)
   \<and> resolveSourcePages (Some ''client'') (albumNetwork [png ''p1'']) ''/gallery/abc123'' freshServer =
     (Inl (Error (Msg ''Unsupported source path format: /gallery/abc123'')), freshServer)"
proof -
  have a: "''abc123'' \<noteq> [] \<and> list_all isAlnum ''abc123''" by (simp add: isAlnum_def)
  have n: "imgurMatch ''/gallery/abc123'' = None" by code_simp
  show ?thesis
    using source_resolution [of "''abc123''" "Some ''client''" "albumNetwork [png ''p1'', mp4 ''v'', png ''p2'']"
        freshServer "''/gallery/abc123''"]
      source_resolution [of "''abc123''" "Some ''client''" "albumNetwork [png ''p1'']"
        freshServer "''/gallery/abc123''"] a n
    by (simp add: fetch_two_images)
qed

text \<open>
  Claim C3 as it is written fails: the descriptor \<^verbatim>\<open>/album/chapter/abc123/\<close> is not of
  the form that the resolver knows; it is refused as unsupported and the album fetcher is
  not called.
\<close>

theorem source_album_path_counterexample:
  "resolveSourcePages (Some ''client'') (albumNetwork [png ''p1'']) ''/album/chapter/abc123/'' freshServer
     = (Inl (Error (Msg ''Unsupported source path format: /album/chapter/abc123/'')), freshServer)
   \<and> fetched freshServer = []"
proof -
  have n: "imgurMatch ''/album/chapter/abc123/'' = None" by code_simp
  show ?thesis by (simp add: resolveSourcePages_def n freshServer_def del: imgurMatch.simps)
qed


section \<open>The manifest schema: what is refused\<close>

lemma z_array_not_array: "\<not> isArray x \<Longrightarrow> z_array schema path x \<noteq> []"
  by (cases x) (simp_all add: z_array_def isArray_def)

lemma z_record_issue:
  assumes "(k, x) \<in> set fs" and "schema (path @ [k]) x \<noteq> []"
  shows "z_record schema path (JObject fs) \<noteq> []"
  using assms by (force simp add: z_record_def)

lemma chapterSchema_groups:
  assumes "groupsNotArrays chap"
  shows "chapterSchema isUrl path chap \<noteq> []"
proof -
  from assms obtain ch where ch: "chap = JObject ch"
    by (cases chap) (simp_all add: groupsNotArrays_def)
  show ?thesis
  proof (cases "field ch ''groups''")
    case (JObject gs)
    with assms ch obtain name pages where m: "(name, pages) \<in> set gs" and n: "\<not> isArray pages"
      by (auto simp add: groupsNotArrays_def list_ex_iff)
    have "z_record (z_array (z_string_url isUrl)) (path @ [''groups'']) (JObject gs) \<noteq> []"
      using m z_array_not_array [OF n] by (rule z_record_issue)
    then show ?thesis by (simp add: ch chapterSchema_def JObject)
  qed (simp_all add: ch chapterSchema_def z_record_def)
qed

lemma gistConfigSchema_missingTitle:
  assumes "missingTitle v"
  shows "gistConfigSchema isUrl path v \<noteq> []"
  using assms
  by (cases v) (simp_all add: gistConfigSchema_def missingTitle_def field_def z_string_min1_def)

lemma gistConfigSchema_groups:
  assumes "hasGroupsNotArrays v"
  shows "gistConfigSchema isUrl path v \<noteq> []"
proof -
  from assms obtain fs where fs: "v = JObject fs"
    by (cases v) (simp_all add: hasGroupsNotArrays_def)
  from assms fs obtain cs where cs: "field fs ''chapters'' = JObject cs"
    by (cases "field fs ''chapters''") (simp_all add: hasGroupsNotArrays_def)
  from assms fs cs obtain key chap where m: "(key, chap) \<in> set cs" and g: "groupsNotArrays chap"
    by (auto simp add: hasGroupsNotArrays_def list_ex_iff)
  have "z_record (chapterSchema isUrl) (path @ [''chapters'']) (JObject cs) \<noteq> []"
    using m chapterSchema_groups [OF g] by (rule z_record_issue)
  then show ?thesis by (simp add: fs gistConfigSchema_def cs)
qed

lemma parse_total:
  "gistConfigSchema_parse isUrl v = Inr v
   \<or> (\<exists>issues. issues \<noteq> [] \<and> gistConfigSchema_parse isUrl v = Inl (ZodError issues))"
  by (simp add: gistConfigSchema_parse_def Let_def)

lemma parse_fails:
  assumes "gistConfigSchema isUrl [] v \<noteq> []"
  shows "\<exists>issues. issues \<noteq> [] \<and> gistConfigSchema_parse isUrl v = Inl (ZodError issues)"
  using assms by (simp add: gistConfigSchema_parse_def Let_def)

lemma fetchGist_invalid:
  assumes "gistCache sv (''gist-'' @ gistId) = None"
    and "parsed fileText = Some v"
    and "gistConfigSchema isUrl [] v \<noteq> []"
  shows "fetchGistConfig isUrl (gistNetwork fileText) gistId sv =
    (Inl (Error (MessageOfZodError (gistConfigSchema isUrl [] v))),
     sv\<lparr>fetched := fetched sv @ [''https://api.github.com/gists/'' @ gistId,
        ''https://gist.githubusercontent.com/raw/manga.json'']\<rparr>)"
proof -
  have j: "isJsonFile \<lparr>filename = Some ''manga.json'',
      raw_url = Some ''https://gist.githubusercontent.com/raw/manga.json'', content = None\<rparr>"
    by (simp add: isJsonFile_def toLowerCase_def endsWith_def)
  show ?thesis
    using assms
    by (simp add: fetchGistConfig_def fetchGistConfigTry_def gistNetwork_def
        okResponse_def logFetch_def j gistFileContent_def gistConfigSchema_parse_def Let_def)
qed

text \<open>
  Claim C8. A decoded JSON value without a \<^verbatim>\<open>title\<close>, or with a chapter whose
  \<^verbatim>\<open>groups\<close> are not a mapping to arrays, is refused by the schema with a \<^verbatim>\<open>ZodError\<close>
  that lists at least one issue. The validation is a function of the value (and of the
  URL test) alone, and it either returns the value or throws a \<^verbatim>\<open>ZodError\<close>, never
  another error. In \<^verbatim>\<open>fetchGistConfig\<close> the error surfaces as an \<^verbatim>\<open>Error\<close> with the
  message of that \<^verbatim>\<open>ZodError\<close>, and nothing is cached.
\<close>

theorem manifest_validation_errors:
  "(missingTitle v \<or> hasGroupsNotArrays v \<longrightarrow>
      (\<exists>issues. issues \<noteq> [] \<and> gistConfigSchema_parse isUrl v = Inl (ZodError issues)))
   \<and> (gistConfigSchema_parse isUrl v = Inr v
      \<or> (\<exists>issues. issues \<noteq> [] \<and> gistConfigSchema_parse isUrl v = Inl (ZodError issues)))
   \<and> ((missingTitle v \<or> hasGroupsNotArrays v) \<and> parsed fileText = Some v
        \<and> gistCache sv (''gist-'' @ gistId) = None \<longrightarrow>
      (\<exists>issues. issues \<noteq> [] \<and>
         fst (fetchGistConfig isUrl (gistNetwork fileText) gistId sv)
           = Inl (Error (MessageOfZodError issues)))
      \<and> gistCache (snd (fetchGistConfig isUrl (gistNetwork fileText) gistId sv)) = gistCache sv)"
proof -
  have i: "gistConfigSchema isUrl [] v \<noteq> []" if "missingTitle v \<or> hasGroupsNotArrays v"
    using that gistConfigSchema_missingTitle gistConfigSchema_groups by blast
  have 1: "\<exists>issues. issues \<noteq> [] \<and> gistConfigSchema_parse isUrl v = Inl (ZodError issues)"
    if "missingTitle v \<or> hasGroupsNotArrays v"
    using i [OF that] by (rule parse_fails)
  have 3: "(\<exists>issues. issues \<noteq> [] \<and>
         fst (fetchGistConfig isUrl (gistNetwork fileText) gistId sv)
           = Inl (Error (MessageOfZodError issues)))
      \<and> gistCache (snd (fetchGistConfig isUrl (gistNetwork fileText) gistId sv)) = gistCache sv"
    if "(missingTitle v \<or> hasGroupsNotArrays v) \<and> parsed fileText = Some v
        \<and> gistCache sv (''gist-'' @ gistId) = None"
    using that i fetchGist_invalid [of sv gistId fileText v isUrl] by auto
  show ?thesis using 1 parse_total 3 by blast
qed

theorem manifest_validation_errors_witness:
  "gistConfigSchema_parse httpsUrl manifestNoTitle = Inl (ZodError [([''title''], invalid_type)])
   \<and> gistConfigSchema_parse httpsUrl manifestPathGroup
       = Inl (ZodError [([''chapters'', ''1'', ''groups'', ''g''], invalid_type)])"
proof -
  have a: "missingTitle manifestNoTitle \<or> hasGroupsNotArrays manifestNoTitle"
    by (simp add: missingTitle_def manifestNoTitle_def)
  have b: "missingTitle manifestPathGroup \<or> hasGroupsNotArrays manifestPathGroup"
    by (simp add: hasGroupsNotArrays_def manifestPathGroup_def field_def groupsNotArrays_def isArray_def)
  have c: "gistConfigSchema httpsUrl [] manifestNoTitle = [([''title''], invalid_type)]"
    by (simp add: gistConfigSchema_def manifestNoTitle_def field_def
      z_string_min1_def z_optional_def z_record_def)
  have d: "gistConfigSchema httpsUrl [] manifestPathGroup
      = [([''chapters'', ''1'', ''groups'', ''g''], invalid_type)]"
    by (simp add: gistConfigSchema_def manifestPathGroup_def field_def
      z_string_min1_def z_optional_def z_record_def chapterSchema_def z_string_def z_array_def)
  show ?thesis
    using manifest_validation_errors [of manifestNoTitle httpsUrl] manifest_validation_errors [of manifestPathGroup httpsUrl] a b
    by (simp add: gistConfigSchema_parse_def c d)
qed


section \<open>Rounding to binary64: what is proved\<close>

lemma pow2_pos [simp]: "0 < pow2 e"
  by (simp add: pow2_def)

lemma pow2_not_le [simp]: "\<not> pow2 e \<le> 0" "\<not> pow2 e < 0"
  using pow2_pos [of e] by (simp_all add: not_le not_less less_imp_le del: pow2_pos)

lemma pow2_add: "pow2 (a + b) = pow2 a * pow2 b"
  by (simp add: pow2_def power_int_add)

lemma pow2_nat: "0 \<le> e \<Longrightarrow> pow2 e = of_int (2 ^ nat e)"
  by (simp add: pow2_def power_int_def)

lemma pow2_mono: "a \<le> b \<Longrightarrow> pow2 a \<le> pow2 b"
  by (simp add: pow2_def power_int_increasing)

lemma roundHalfEven_ge_floor: "\<lfloor>q\<rfloor> \<le> roundHalfEven q"
  by (simp add: roundHalfEven_def Let_def)

lemma roundHalfEven_pos: "1 \<le> q \<Longrightarrow> 1 \<le> roundHalfEven q"
proof -
  assume "1 \<le> q"
  then have "1 \<le> \<lfloor>q\<rfloor>" by simp
  with roundHalfEven_ge_floor [of q] show ?thesis by linarith
qed

text \<open>The exponent of a positive rational is not above it.\<close>

lemma binade_lower:
  assumes "0 < a"
  shows "pow2 (binade a) \<le> a"
proof -
  obtain n d where nd: "quotient_of a = (n, d)" by (cases "quotient_of a") auto
  then have d: "0 < d" and a: "a = of_int n / of_int d"
    by (simp_all add: quotient_of_denom_pos quotient_of_div)
  with assms have n: "0 < n" by (simp add: zero_less_divide_iff)
  define k where "k = bitlen n - bitlen d"
  show ?thesis
  proof (cases "pow2 k \<le> a")
    case True
    then show ?thesis by (simp add: binade_def nd k_def)
  next
    case False
    then have b: "binade a = k - 1" by (simp add: binade_def nd k_def)
    have bn: "1 \<le> bitlen n" and bd: "1 \<le> bitlen d"
      using n d by (auto simp add: bitlen_alt_def)
    have ln: "(2::int) ^ nat (bitlen n - 1) \<le> n" using bitlen_bounds [OF n] by simp
    have ud: "d < (2::int) ^ nat (bitlen d)" using bitlen_bounds [OF d] by simp
    have "(of_int (2 ^ nat (bitlen n - 1)) :: rat) \<le> of_int n"
      using ln by (simp only: of_int_le_iff)
    moreover have "pow2 (bitlen n - 1) = of_int (2 ^ nat (bitlen n - 1))"
      using bn by (intro pow2_nat) simp
    ultimately have 1: "pow2 (bitlen n - 1) \<le> of_int n" by simp
    have "(of_int d :: rat) \<le> of_int (2 ^ nat (bitlen d))"
      using ud by (simp only: of_int_le_iff)
    moreover have "pow2 (bitlen d) = of_int (2 ^ nat (bitlen d))"
      using bd by (intro pow2_nat) simp
    ultimately have 2: "of_int d \<le> pow2 (bitlen d)" by simp
    have "pow2 (k - 1) * pow2 (bitlen d) = pow2 (bitlen n - 1)"
      by (simp add: pow2_add [symmetric] k_def)
    then have "pow2 (k - 1) * of_int d \<le> of_int n"
      using 1 2 by (metis (no_types) less_eq_rat_def mult_left_mono order_trans pow2_pos)
    then have "pow2 (k - 1) \<le> a"
      using d by (simp add: a pos_le_divide_eq)
    then show ?thesis by (simp add: b)
  qed
qed


text \<open>A rounded value other than zero is a positive integer times a power of two, at or
  above the exponent \<open>-1074\<close>, with the sign of the rational.\<close>

lemma round64_shape:
  assumes "q \<noteq> 0"
  obtains m e where "- 1074 \<le> e" and "0 \<le> m" and "pow2 (- 1074) \<le> \<bar>q\<bar> \<Longrightarrow> 1 \<le> m"
    and "round64 q =
      (if pow2 1024 \<le> of_int m * pow2 e then (if q < 0 then NegInf else PosInf)
       else Fin (if q < 0 then - (of_int m * pow2 e) else of_int m * pow2 e))"
proof -
  define a where "a = \<bar>q\<bar>"
  define e where "e = max (binade a - 52) (- 1074)"
  define m where "m = roundHalfEven (a / pow2 e)"
  have a: "0 < a" using assms by (simp add: a_def)
  have 1: "- 1074 \<le> e" by (simp add: e_def)
  have "0 \<le> a / pow2 e" using a by (simp add: less_imp_le)
  then have "0 \<le> \<lfloor>a / pow2 e\<rfloor>" by simp
  with roundHalfEven_ge_floor [of "a / pow2 e"] have 2: "0 \<le> m" unfolding m_def by linarith
  have 3: "1 \<le> m" if "pow2 (- 1074) \<le> a"
  proof -
    have "pow2 e \<le> a"
    proof (cases "binade a - 52 \<le> - 1074")
      case True
      then have "e = - 1074" by (simp add: e_def)
      with that show ?thesis by simp
    next
      case False
      then have "e = binade a - 52" by (simp add: e_def)
      then have "pow2 e \<le> pow2 (binade a)" by (simp add: pow2_mono)
      with binade_lower [OF a] show ?thesis by simp
    qed
    then have "1 \<le> a / pow2 e" by (simp add: pos_le_divide_eq)
    then show ?thesis unfolding m_def by (rule roundHalfEven_pos)
  qed
  have 4: "round64 q =
      (if pow2 1024 \<le> of_int m * pow2 e then (if q < 0 then NegInf else PosInf)
       else Fin (if q < 0 then - (of_int m * pow2 e) else of_int m * pow2 e))"
    using assms by (simp add: round64_def Let_def a_def [symmetric] e_def [symmetric] m_def [symmetric])
  show thesis using that [OF 1 2 _ 4] 3 by (simp add: a_def)
qed

text \<open>The grid is closed under difference and negation, and its least positive element is
  \<open>2\<^sup>-\<^sup>1\<^sup>0\<^sup>7\<^sup>4\<close>.\<close>

lemma onGrid_diff: "onGrid x \<Longrightarrow> onGrid y \<Longrightarrow> onGrid (x - y)"
proof -
  assume "onGrid x" "onGrid y"
  then obtain m n :: int where "x = of_int m * pow2 (- 1074)" "y = of_int n * pow2 (- 1074)"
    by (auto simp add: onGrid_def)
  then have "x - y = of_int (m - n) * pow2 (- 1074)" by (simp add: algebra_simps)
  then show ?thesis unfolding onGrid_def by blast
qed

lemma onGrid_neg: "onGrid x \<Longrightarrow> onGrid (- x)"
proof -
  assume "onGrid x"
  then obtain m :: int where "x = of_int m * pow2 (- 1074)" by (auto simp add: onGrid_def)
  then have "- x = of_int (- m) * pow2 (- 1074)" by simp
  then show ?thesis unfolding onGrid_def by blast
qed

lemma onGrid_least:
  assumes "onGrid d" and "d \<noteq> 0"
  shows "pow2 (- 1074) \<le> \<bar>d\<bar>"
proof -
  from assms obtain m :: int where d: "d = of_int m * pow2 (- 1074)" and m: "m \<noteq> 0"
    by (auto simp add: onGrid_def)
  have "\<bar>pow2 (- 1074)\<bar> = pow2 (- 1074)" by (simp add: abs_of_pos)
  then have "\<bar>d\<bar> = of_int \<bar>m\<bar> * pow2 (- 1074)" by (simp add: d abs_mult)
  moreover have "(1::rat) \<le> of_int \<bar>m\<bar>" using m by (simp add: int_one_le_iff_zero_less)
  ultimately show ?thesis by (simp add: mult_le_cancel_right1 less_imp_le)
qed

lemma round64_onGrid:
  assumes "round64 q = Fin r"
  shows "onGrid r"
proof (cases "q = 0")
  case True
  with assms have "r = of_int 0 * pow2 (- 1074)" by (simp add: round64_def)
  then show ?thesis unfolding onGrid_def by blast
next
  case False
  then obtain m e where e: "- 1074 \<le> e"
    and r: "round64 q =
      (if pow2 1024 \<le> of_int m * pow2 e then (if q < 0 then NegInf else PosInf)
       else Fin (if q < 0 then - (of_int m * pow2 e) else of_int m * pow2 e))"
    by (rule round64_shape)
  have "pow2 e = pow2 (e + 1074) * pow2 (- 1074)" by (simp add: pow2_add [symmetric])
  also have "pow2 (e + 1074) = of_int (2 ^ nat (e + 1074))" using e by (intro pow2_nat) simp
  finally have p: "of_int m * pow2 e = of_int (m * 2 ^ nat (e + 1074)) * pow2 (- 1074)"
    by simp
  then have g: "onGrid (of_int m * pow2 e)" unfolding onGrid_def by blast
  from assms r have "r = of_int m * pow2 e \<or> r = - (of_int m * pow2 e)"
    by (auto split: if_splits)
  with g onGrid_neg show ?thesis by auto
qed

text \<open>Rounding keeps the sign of a rational that is not below the grid: a difference of two
  binary64 values that are not equal does not round to zero.\<close>

lemma round64_sign:
  assumes "pow2 (- 1074) \<le> \<bar>q\<bar>"
  shows "js_less (round64 q) (Fin 0) = (q < 0)" and "js_less (Fin 0) (round64 q) = (0 < q)"
    and "round64 q \<noteq> NaN"
proof -
  have "0 < pow2 (- 1074)" by simp
  with assms have q: "q \<noteq> 0" by auto
  then obtain m e where m: "1 \<le> m"
    and r: "round64 q =
      (if pow2 1024 \<le> of_int m * pow2 e then (if q < 0 then NegInf else PosInf)
       else Fin (if q < 0 then - (of_int m * pow2 e) else of_int m * pow2 e))"
    using assms by (auto elim: round64_shape)
  have "(0::rat) < of_int m" using m by simp
  then have p: "0 < of_int m * pow2 e" by (simp add: zero_less_mult_iff)
  show "js_less (round64 q) (Fin 0) = (q < 0)" "js_less (Fin 0) (round64 q) = (0 < q)"
    "round64 q \<noteq> NaN"
    using p q by (auto simp add: r)
qed

lemma round64_not_NaN [simp]: "round64 q \<noteq> NaN"
  by (cases "q = 0") (auto simp add: round64_def Let_def)


lemma roundHalfEven_int [simp]: "roundHalfEven (of_int z) = z"
  by (simp add: roundHalfEven_def)

lemma pow2_less_cancel: "pow2 a \<le> x \<Longrightarrow> x < pow2 b \<Longrightarrow> a < b"
  by (metis le_less_trans not_less pow2_mono)

text \<open>Rounding changes no integer below \<open>2\<^sup>5\<^sup>3\<close> in magnitude.\<close>

lemma round64_int:
  assumes "\<bar>n\<bar> < 2 ^ 53"
  shows "round64 (of_int n) = Fin (of_int n)"
proof (cases "n = 0")
  case True
  then show ?thesis by (simp add: round64_def)
next
  case False
  define a :: rat where "a = \<bar>of_int n\<bar>"
  define e where "e = max (binade a - 52) (- 1074)"
  have a: "0 < a" using False by (simp add: a_def)
  have an: "a = of_int \<bar>n\<bar>" by (simp add: a_def)
  have "(of_int \<bar>n\<bar> :: rat) < of_int (2 ^ 53)" using assms by (simp only: of_int_less_iff)
  then have lt: "a < pow2 53" by (simp add: an pow2_nat)
  from pow2_less_cancel [OF binade_lower [OF a] lt] have "binade a < 53" .
  then have e0: "e \<le> 0" and e1: "- 1074 \<le> e" by (simp_all add: e_def)
  have "pow2 e * pow2 (- e) = pow2 (e + - e)" by (simp only: pow2_add)
  then have "pow2 e * pow2 (- e) = 1" by (simp add: pow2_def)
  moreover have "pow2 (- e) = of_int (2 ^ nat (- e))" using e0 by (intro pow2_nat) simp
  ultimately have pe: "pow2 e * of_int (2 ^ nat (- e)) = 1" by simp
  have ne: "pow2 e \<noteq> 0" using pow2_pos [of e] by (simp del: pow2_pos)
  from pe have "of_int (2 ^ nat (- e)) * pow2 e = 1" by (simp only: mult.commute)
  then have "(of_int (2 ^ nat (- e)) :: rat) = 1 / pow2 e"
    using ne by (metis nonzero_eq_divide_eq)
  then have "a / pow2 e = a * of_int (2 ^ nat (- e))"
    by (simp only: times_divide_eq_right mult_1_right)
  also have "\<dots> = of_int (\<bar>n\<bar> * 2 ^ nat (- e))" by (simp add: an)
  finally have "a / pow2 e = of_int (\<bar>n\<bar> * 2 ^ nat (- e))" .
  then have m: "roundHalfEven (a / pow2 e) = \<bar>n\<bar> * 2 ^ nat (- e)"
    by (simp only: roundHalfEven_int)
  have r: "of_int (roundHalfEven (a / pow2 e)) * pow2 e = a"
  proof -
    have "of_int (roundHalfEven (a / pow2 e)) * pow2 e
        = of_int (\<bar>n\<bar> * 2 ^ nat (- e)) * pow2 e" by (simp only: m)
    also have "\<dots> = of_int \<bar>n\<bar> * (pow2 e * of_int (2 ^ nat (- e)))" by simp
    also have "\<dots> = a" by (simp only: pe an mult_1_right)
    finally show ?thesis .
  qed
  have "pow2 53 \<le> pow2 1024" by (rule pow2_mono) simp
  with lt have big: "\<not> pow2 1024 \<le> a" by simp
  have "round64 (of_int n) = Fin (if (of_int n :: rat) < 0 then - a else a)"
    using False big
    by (simp add: round64_def Let_def a_def [symmetric] e_def [symmetric] r)
  then show ?thesis by (simp add: a_def)
qed

lemma round64_numeral [simp]:
  "\<bar>numeral k :: int\<bar> < 2 ^ 53 \<Longrightarrow> round64 (numeral k) = Fin (numeral k)"
  "\<bar>numeral k :: int\<bar> < 2 ^ 53 \<Longrightarrow> round64 (- numeral k) = Fin (- numeral k)"
  "round64 0 = Fin 0" "round64 1 = Fin 1" "round64 (- 1) = Fin (- 1)"
  using round64_int [of "numeral k"] round64_int [of "- numeral k"] round64_int [of 0]
    round64_int [of 1] round64_int [of "- 1"]
  by simp_all


section \<open>\<^verbatim>\<open>parseFloat\<close> reads the longest literal\<close>

text \<open>
  The scanner against the grammar: what it reads is a literal with its value, no literal
  at the start of the input is longer than what it reads, and it reads something as soon
  as a literal starts the input.
\<close>

lemma foldl_digits:
  "foldl (\<lambda>acc c. 10 * acc + digitVal c) a ds
     = a * 10 ^ length ds + foldl (\<lambda>acc c. 10 * acc + digitVal c) 0 ds"
proof (induction ds arbitrary: a)
  case Nil
  show ?case by simp
next
  case (Cons d ds)
  let ?f = "\<lambda>acc c. 10 * acc + digitVal c"
  have 1: "foldl ?f (10 * a + digitVal d) ds = (10 * a + digitVal d) * 10 ^ length ds + foldl ?f 0 ds"
    by (rule Cons.IH)
  have 2: "foldl ?f (digitVal d) ds = digitVal d * 10 ^ length ds + foldl ?f 0 ds"
    by (rule Cons.IH)
  have "foldl ?f a (d # ds) = foldl ?f (10 * a + digitVal d) ds" by simp
  also have "\<dots> = a * 10 ^ length (d # ds) + (digitVal d * 10 ^ length ds + foldl ?f 0 ds)"
    by (subst 1) (simp add: algebra_simps)
  also have "\<dots> = a * 10 ^ length (d # ds) + foldl ?f 0 (d # ds)"
    by (simp add: 2)
  finally show ?case .
qed

lemma digitsVal_append:
  "digitsVal (a @ b) = digitsVal a * 10 ^ length b + digitsVal b"
  by (simp add: digitsVal_def foldl_digits [of "foldl (\<lambda>acc c. 10 * acc + digitVal c) 0 a" b])

lemma digitsVal_Nil [simp]: "digitsVal [] = 0"
  by (simp add: digitsVal_def)

lemma scanned_value:
  "of_nat (digitsVal (ip @ fp)) / 10 ^ length fp * pow10 e = decimalValue ip fp e"
  by (simp add: decimalValue_def digitsVal_append field_simps)

lemma scanned_value':
  "of_nat (digitsVal (ip @ fp)) * pow10 e / 10 ^ length fp = decimalValue ip fp e"
  using scanned_value [of ip fp e] by simp

lemma scanned_value_integer:
  "of_nat (digitsVal ip) * pow10 e = decimalValue ip [] e"
  by (simp add: decimalValue_def)

lemma dropWhile_same_length:
  assumes "length (dropWhile P xs) = length xs"
  shows "takeWhile P xs = []" and "dropWhile P xs = xs"
proof -
  have "length (takeWhile P xs) + length (dropWhile P xs) = length xs"
    by (metis length_append takeWhile_dropWhile_id)
  with assms show "takeWhile P xs = []" by simp
  then show "dropWhile P xs = xs" by (metis append_Nil takeWhile_dropWhile_id)
qed

lemma digits_then:
  assumes "list_all isDigit ds"
  shows "takeWhile isDigit (ds @ s) = ds @ takeWhile isDigit s"
    and "dropWhile isDigit (ds @ s) = dropWhile isDigit s"
  using assms by (simp_all add: list_all_iff takeWhile_append2 dropWhile_append2)

lemma isDigit_chars [simp]:
  "\<not> isDigit CHR ''.''" "\<not> isDigit CHR ''e''" "\<not> isDigit CHR ''E''" "\<not> isDigit CHR ''+''"
  "\<not> isDigit CHR ''-''" "\<not> isDigit CHR ''I''"
  by (simp_all add: isDigit_def)

lemma scanExponent_length:
  assumes "scanExponent s = (e, r)"
  shows "length r \<le> length s \<and> (length r = length s \<longrightarrow> e = 0)"
proof (cases "(e, r) = (0, s)")
  case True
  then show ?thesis by simp
next
  case False
  with assms obtain c t where s: "s = c # t"
    by (cases s) (auto simp add: scanExponent_def)
  define u where
    "u = (case t of [] \<Rightarrow> t | d # u' \<Rightarrow> if d = CHR ''+'' \<or> d = CHR ''-'' then u' else t)"
  have lu: "length u \<le> length t" by (auto simp add: u_def split: list.splits)
  have "r = dropWhile isDigit u"
    using assms False
    by (auto simp add: scanExponent_def s u_def Let_def split: if_splits list.splits)
  then have "length r \<le> length u" by (simp add: length_dropWhile_le)
  with lu show ?thesis by (simp add: s)
qed

text \<open>What the scanner reads as an exponent is an exponent part, or nothing.\<close>

lemma scanExponent_sound:
  assumes "scanExponent s = (e, r)"
  shows "\<exists>x. s = x @ r \<and> optExponentPart x e"
proof (cases "r = s")
  case True
  with assms have "e = 0" using scanExponent_length [OF assms] by simp
  with True show ?thesis by (auto intro: noExponent)
next
  case False
  with assms obtain c t where s: "s = c # t" and c: "c = CHR ''e'' \<or> c = CHR ''E''"
    by (cases s) (auto simp add: scanExponent_def split: if_splits)
  define sgn :: int where
    "sgn = (case t of [] \<Rightarrow> 1 | d # u' \<Rightarrow> if d = CHR ''-'' then - 1 else 1)"
  define u where
    "u = (case t of [] \<Rightarrow> t | d # u' \<Rightarrow> if d = CHR ''+'' \<or> d = CHR ''-'' then u' else t)"
  have su: "(case t of [] \<Rightarrow> (1, t) | d # u' \<Rightarrow>
       if d = CHR ''+'' then (1, u') else if d = CHR ''-'' then (- 1, u') else (1, t)) = (sgn, u)"
    by (auto simp add: sgn_def u_def split: list.splits)
  have res: "takeWhile isDigit u \<noteq> []" "e = sgn * int (digitsVal (takeWhile isDigit u))"
    "r = dropWhile isDigit u"
    using assms False c by (auto simp add: scanExponent_def s su Let_def split: if_splits)
  have dd: "decimalDigits (takeWhile isDigit u)"
    using res(1) by (auto simp add: decimalDigits_def list_all_iff dest: set_takeWhileD)
  have u: "u = takeWhile isDigit u @ r" by (simp add: res(3))
  show ?thesis
  proof (cases t)
    case Nil
    with res(1) show ?thesis by (simp add: u_def)
  next
    case (Cons d u')
    consider "d = CHR ''+''" | "d = CHR ''-''" | "d \<noteq> CHR ''+''" "d \<noteq> CHR ''-''" by blast
    then show ?thesis
    proof cases
      case 1
      then have "u = u'" "sgn = 1" by (simp_all add: u_def sgn_def Cons)
      then have "s = (c # CHR ''+'' # takeWhile isDigit u) @ r"
        "exponentPart (c # CHR ''+'' # takeWhile isDigit u) e"
        using u dd c 1 by (auto simp add: s Cons res(2) intro: plusExponent)
      then show ?thesis by (blast intro: someExponent)
    next
      case 2
      then have "u = u'" "sgn = - 1" by (simp_all add: u_def sgn_def Cons)
      then have "s = (c # CHR ''-'' # takeWhile isDigit u) @ r"
        "exponentPart (c # CHR ''-'' # takeWhile isDigit u) e"
        using u dd c 2 by (auto simp add: s Cons res(2) intro: minusExponent)
      then show ?thesis by (blast intro: someExponent)
    next
      case 3
      then have "u = t" "sgn = 1" by (simp_all add: u_def sgn_def Cons)
      then have "s = (c # takeWhile isDigit u) @ r" "exponentPart (c # takeWhile isDigit u) e"
        using u dd c by (auto simp add: s res(2) intro: unsignedExponent)
      then show ?thesis by (blast intro: someExponent)
    qed
  qed
qed

lemma scan_digits_rest:
  assumes "decimalDigits ds"
  shows "takeWhile isDigit (ds @ r') \<noteq> []"
    and "length (dropWhile isDigit (ds @ r')) \<le> length r'"
    and "length (dropWhile isDigit (ds @ r')) = length r' \<Longrightarrow> takeWhile isDigit (ds @ r') = ds"
proof -
  have d: "list_all isDigit ds" and n: "ds \<noteq> []" using assms by (simp_all add: decimalDigits_def)
  show "takeWhile isDigit (ds @ r') \<noteq> []" using n by (simp add: digits_then [OF d])
  show "length (dropWhile isDigit (ds @ r')) \<le> length r'"
    by (simp add: digits_then [OF d] length_dropWhile_le)
  assume "length (dropWhile isDigit (ds @ r')) = length r'"
  then have "length (dropWhile isDigit r') = length r'" by (simp add: digits_then [OF d])
  then have "takeWhile isDigit r' = []" by (rule dropWhile_same_length)
  then show "takeWhile isDigit (ds @ r') = ds" by (simp add: digits_then [OF d])
qed

text \<open>The scanner reads an exponent part that starts the input, or more.\<close>

lemma scanExponent_max:
  assumes "exponentPart x e'"
  shows "\<exists>e r. scanExponent (x @ r') = (e, r) \<and> length r \<le> length r'
     \<and> (length r = length r' \<longrightarrow> e = e')"
  using assms
proof cases
  case (unsignedExponent ds c)
  obtain d ds' where ds: "ds = d # ds'" and d: "isDigit d"
    using unsignedExponent(3) by (cases ds) (auto simp add: decimalDigits_def)
  have pm: "d \<noteq> CHR ''+''" "d \<noteq> CHR ''-''" using d by auto
  have "scanExponent (x @ r') =
      (int (digitsVal (takeWhile isDigit (ds @ r'))), dropWhile isDigit (ds @ r'))"
    using unsignedExponent(4) scan_digits_rest(1) [OF unsignedExponent(3), of r'] pm
    by (auto simp add: scanExponent_def unsignedExponent(1) ds Let_def)
  then show ?thesis
    using scan_digits_rest(2,3) [OF unsignedExponent(3), of r'] unsignedExponent(2) by auto
next
  case (plusExponent ds c)
  have "scanExponent (x @ r') =
      (int (digitsVal (takeWhile isDigit (ds @ r'))), dropWhile isDigit (ds @ r'))"
    using plusExponent(4) scan_digits_rest(1) [OF plusExponent(3), of r']
    by (auto simp add: scanExponent_def plusExponent(1) Let_def)
  then show ?thesis
    using scan_digits_rest(2,3) [OF plusExponent(3), of r'] plusExponent(2) by auto
next
  case (minusExponent ds c)
  have "scanExponent (x @ r') =
      (- int (digitsVal (takeWhile isDigit (ds @ r'))), dropWhile isDigit (ds @ r'))"
    using minusExponent(4) scan_digits_rest(1) [OF minusExponent(3), of r']
    by (auto simp add: scanExponent_def minusExponent(1) Let_def)
  then show ?thesis
    using scan_digits_rest(2,3) [OF minusExponent(3), of r'] minusExponent(2) by auto
qed

lemma optExponent_max:
  assumes "optExponentPart x e'"
  shows "\<exists>e r. scanExponent (x @ r') = (e, r) \<and> length r \<le> length r'
     \<and> (length r = length r' \<longrightarrow> e = e')"
  using assms
proof cases
  case noExponent
  obtain e r where er: "scanExponent r' = (e, r)" by (cases "scanExponent r'") auto
  with scanExponent_length [OF er] show ?thesis by (simp add: noExponent)
next
  case someExponent
  then show ?thesis by (rule scanExponent_max)
qed

lemma exponentPart_start:
  assumes "exponentPart x e"
  shows "\<exists>c y. x = c # y \<and> \<not> isDigit c \<and> c \<noteq> CHR ''.''"
  using assms by cases auto


lemma fraction_tail:
  assumes "list_all isDigit fp'" and "optExponentPart x' e'"
    and "scanExponent (dropWhile isDigit (fp' @ x' @ r')) = (e, r)"
  shows "length r \<le> length r'"
    and "\<exists>more. takeWhile isDigit (fp' @ x' @ r') = fp' @ more"
    and "length r = length r' \<Longrightarrow> takeWhile isDigit (fp' @ x' @ r') = fp' \<and> e = e'"
  using assms(2)
proof (atomize (full), cases)
  case noExponent
  have t: "takeWhile isDigit (fp' @ r') = fp' @ takeWhile isDigit r'"
    and d: "dropWhile isDigit (fp' @ r') = dropWhile isDigit r'"
    by (simp_all add: digits_then [OF assms(1)])
  have er: "scanExponent (dropWhile isDigit r') = (e, r)" using assms(3) by (simp add: noExponent d)
  have l: "length r \<le> length (dropWhile isDigit r')"
    "length r = length (dropWhile isDigit r') \<longrightarrow> e = 0"
    using scanExponent_length [OF er] by simp_all
  have l2: "length (dropWhile isDigit r') \<le> length r'" by (rule length_dropWhile_le)
  have eq: "takeWhile isDigit r' = [] \<and> e = 0" if "length r = length r'"
  proof -
    from that l l2 have a: "length (dropWhile isDigit r') = length r'" by simp
    then have "takeWhile isDigit r' = []" by (rule dropWhile_same_length)
    moreover have "e = 0" using l(2) a that by simp
    ultimately show ?thesis by simp
  qed
  have 1: "length r \<le> length r'" using l(1) l2 by simp
  have 2: "\<exists>more. takeWhile isDigit (fp' @ r') = fp' @ more" by (simp add: t)
  have 3: "length r = length r' \<longrightarrow> takeWhile isDigit (fp' @ r') = fp' \<and> e = e'"
    using eq by (simp add: t noExponent)
  show "length r \<le> length r'
      \<and> (\<exists>more. takeWhile isDigit (fp' @ x' @ r') = fp' @ more)
      \<and> (length r = length r' \<longrightarrow> takeWhile isDigit (fp' @ x' @ r') = fp' \<and> e = e')"
    unfolding noExponent(1) append_Nil using 1 2 3 by blast
next
  case someExponent
  from exponentPart_start [OF someExponent] obtain c y where x: "x' = c # y" and c: "\<not> isDigit c"
    by blast
  have t: "takeWhile isDigit (fp' @ x' @ r') = fp'"
    and d: "dropWhile isDigit (fp' @ x' @ r') = x' @ r'"
    using c by (simp_all add: x digits_then [OF assms(1)])
  from scanExponent_max [OF someExponent, of r'] assms(3)
  show "length r \<le> length r'
      \<and> (\<exists>more. takeWhile isDigit (fp' @ x' @ r') = fp' @ more)
      \<and> (length r = length r' \<longrightarrow> takeWhile isDigit (fp' @ x' @ r') = fp' \<and> e = e')"
    by (auto simp add: t d)
qed

lemma scanUnsignedDecimal_not_Infinity:
  assumes "s = [] \<or> hd s \<noteq> CHR ''I''"
  shows "\<not> startsWith s ''Infinity''"
  using assms by (cases s) (auto simp add: startsWith_def)

lemma scanUnsignedDecimal_point:
  assumes "list_all isDigit ip"
    and "scanExponent (dropWhile isDigit w) = (e, r)"
    and "ip \<noteq> [] \<or> takeWhile isDigit w \<noteq> []"
  shows "scanUnsignedDecimal (ip @ CHR ''.'' # w) =
     Some (round64 (decimalValue ip (takeWhile isDigit w) e), r)"
proof -
  have nI: "\<not> startsWith (ip @ CHR ''.'' # w) ''Infinity''"
    using assms(1) by (intro scanUnsignedDecimal_not_Infinity) (cases ip, auto)
  have t: "takeWhile isDigit (ip @ CHR ''.'' # w) = ip"
    "dropWhile isDigit (ip @ CHR ''.'' # w) = CHR ''.'' # w"
    by (simp_all add: digits_then [OF assms(1)])
  show ?thesis
    using nI assms(3)
    by (auto simp add: scanUnsignedDecimal_def t Let_def assms(2) scanned_value')
qed

lemma scanUnsignedDecimal_integer:
  assumes "decimalDigits ip" and "w = [] \<or> (\<not> isDigit (hd w) \<and> hd w \<noteq> CHR ''.'')"
    and "scanExponent w = (e, r)"
  shows "scanUnsignedDecimal (ip @ w) = Some (round64 (decimalValue ip [] e), r)"
proof -
  have d: "list_all isDigit ip" and n: "ip \<noteq> []" using assms(1) by (simp_all add: decimalDigits_def)
  have nI: "\<not> startsWith (ip @ w) ''Infinity''"
    using d n by (intro scanUnsignedDecimal_not_Infinity) (cases ip, auto)
  have w: "takeWhile isDigit w = []" "dropWhile isDigit w = w"
    using assms(2) by (cases w; simp)+
  have t: "takeWhile isDigit (ip @ w) = ip" "dropWhile isDigit (ip @ w) = w"
    by (simp_all add: digits_then [OF d] w)
  have nd: "(w \<noteq> [] \<and> hd w = CHR ''.'') = False" using assms(2) by auto
  show ?thesis
    using nI n
    by (simp add: scanUnsignedDecimal_def t nd Let_def assms(3) scanned_value_integer)
qed


text \<open>What the scanner reads is a literal, with the value of the literal.\<close>

lemma scanUnsignedDecimal_sound:
  assumes "scanUnsignedDecimal s = Some (v, r)"
  shows "\<exists>p. s = p @ r \<and> strUnsignedDecimalLiteral p v"
proof (cases "startsWith s ''Infinity''")
  case True
  with assms have v: "v = PosInf" and r: "r = drop 8 s"
    by (simp_all add: scanUnsignedDecimal_def)
  have l8: "length ''Infinity'' = 8" by simp
  from True have "take 8 s = ''Infinity''" unfolding startsWith_def l8 .
  then have "s = ''Infinity'' @ drop 8 s" by (metis append_take_drop_id)
  then show ?thesis using v r infinityLiteral by blast
next
  case False
  define ip where "ip = takeWhile isDigit s"
  define r1 where "r1 = dropWhile isDigit s"
  define hasDot where "hasDot = (r1 \<noteq> [] \<and> hd r1 = CHR ''.'')"
  define fp where "fp = (if hasDot then takeWhile isDigit (tl r1) else [])"
  define r2 where "r2 = (if hasDot then dropWhile isDigit (tl r1) else r1)"
  obtain e r3 where er: "scanExponent r2 = (e, r3)" by (cases "scanExponent r2") auto
  have res: "\<not> (ip = [] \<and> fp = [])"
    "v = round64 (of_nat (digitsVal (ip @ fp)) / 10 ^ length fp * pow10 e)" "r = r3"
    using assms False
    by (auto simp add: scanUnsignedDecimal_def ip_def [symmetric] r1_def [symmetric]
        hasDot_def [symmetric] fp_def [symmetric] r2_def [symmetric] Let_def er
        split: if_splits)
  have v: "v = round64 (decimalValue ip fp e)" by (simp only: res(2) scanned_value)
  from scanExponent_sound [OF er] obtain x where x: "r2 = x @ r" "optExponentPart x e"
    by (auto simp add: res(3))
  have s: "s = ip @ r1" by (simp add: ip_def r1_def)
  have dip: "list_all isDigit ip" by (auto simp add: ip_def list_all_iff dest: set_takeWhileD)
  have dfp: "list_all isDigit fp" by (auto simp add: fp_def list_all_iff dest: set_takeWhileD)
  show ?thesis
  proof (cases hasDot)
    case True
    then have "r1 = CHR ''.'' # tl r1" by (cases r1) (auto simp add: hasDot_def)
    moreover have "tl r1 = fp @ r2" using True by (simp add: fp_def r2_def)
    ultimately have sp: "s = ip @ CHR ''.'' # fp @ x @ r" by (simp add: s x(1))
    show ?thesis
    proof (cases "ip = []")
      case True
      with res(1) have "decimalDigits fp" using dfp by (simp add: decimalDigits_def)
      from fractionLiteral [OF this x(2)] sp True show ?thesis by (auto simp add: v)
    next
      case False
      then have "decimalDigits ip" using dip by (simp add: decimalDigits_def)
      from pointLiteral [OF this dfp x(2)] sp show ?thesis by (auto simp add: v)
    qed
  next
    case False
    then have f: "fp = []" "r2 = r1" by (simp_all add: fp_def r2_def)
    with res(1) have "decimalDigits ip" using dip by (simp add: decimalDigits_def)
    from integerLiteral [OF this x(2)] show ?thesis
      using s f x(1) by (auto simp add: v)
  qed
qed

text \<open>The scanner reads a literal that starts the input, or more; when it reads no more,
  the value is that of the literal.\<close>

lemma scanUnsignedDecimal_max:
  assumes "strUnsignedDecimalLiteral p' v'"
  shows "\<exists>v r. scanUnsignedDecimal (p' @ r') = Some (v, r) \<and> length r \<le> length r'
     \<and> (length r = length r' \<longrightarrow> v = v')"
  using assms
proof cases
  case infinityLiteral
  then show ?thesis by (simp add: scanUnsignedDecimal_def startsWith_def)
next
  case (pointLiteral ip fp x e')
  obtain e r where er: "scanExponent (dropWhile isDigit (fp @ x @ r')) = (e, r)"
    by (cases "scanExponent (dropWhile isDigit (fp @ x @ r'))") auto
  have dip: "list_all isDigit ip" and nip: "ip \<noteq> []"
    using pointLiteral(3) by (simp_all add: decimalDigits_def)
  have "scanUnsignedDecimal (ip @ CHR ''.'' # (fp @ x @ r')) =
     Some (round64 (decimalValue ip (takeWhile isDigit (fp @ x @ r')) e), r)"
    using dip er nip by (intro scanUnsignedDecimal_point) auto
  then show ?thesis
    using fraction_tail(1,3) [OF pointLiteral(4,5) er] by (auto simp add: pointLiteral(1,2))
next
  case (fractionLiteral fp x e')
  obtain e r where er: "scanExponent (dropWhile isDigit (fp @ x @ r')) = (e, r)"
    by (cases "scanExponent (dropWhile isDigit (fp @ x @ r'))") auto
  have dfp: "list_all isDigit fp" and nfp: "fp \<noteq> []"
    using fractionLiteral(3) by (simp_all add: decimalDigits_def)
  from fraction_tail(2) [OF dfp fractionLiteral(4) er] nfp
  have ne: "takeWhile isDigit (fp @ x @ r') \<noteq> []" by auto
  have "scanUnsignedDecimal ([] @ CHR ''.'' # (fp @ x @ r')) =
     Some (round64 (decimalValue [] (takeWhile isDigit (fp @ x @ r')) e), r)"
    using er ne by (intro scanUnsignedDecimal_point) auto
  then show ?thesis
    using fraction_tail(1,3) [OF dfp fractionLiteral(4) er]
    by (auto simp add: fractionLiteral(1,2))
next
  case (integerLiteral ip x e')
  have dip: "list_all isDigit ip" and nip: "ip \<noteq> []"
    using integerLiteral(3) by (simp_all add: decimalDigits_def)
  from integerLiteral(4) show ?thesis
  proof cases
    case noExponent
    \<comment> \<open>the digits may go on in \<open>r'\<close>, and a point or an exponent may follow them\<close>
    define ip0 where "ip0 = ip @ takeWhile isDigit r'"
    define r1 where "r1 = dropWhile isDigit r'"
    have s: "ip @ r' = ip0 @ r1" by (simp add: ip0_def r1_def)
    have d0: "decimalDigits ip0"
      using dip nip
      by (auto simp add: ip0_def decimalDigits_def list_all_iff dest: set_takeWhileD)
    have l1: "length r1 \<le> length r'" by (simp add: r1_def length_dropWhile_le)
    have h1: "r1 = [] \<or> \<not> isDigit (hd r1)"
      unfolding r1_def by (metis hd_dropWhile)
    show ?thesis
    proof (cases "r1 \<noteq> [] \<and> hd r1 = CHR ''.''")
      case True
      then obtain w where w: "r1 = CHR ''.'' # w" by (cases r1) auto
      obtain e r where er: "scanExponent (dropWhile isDigit w) = (e, r)"
        by (cases "scanExponent (dropWhile isDigit w)") auto
      have "scanUnsignedDecimal (ip0 @ CHR ''.'' # w) =
          Some (round64 (decimalValue ip0 (takeWhile isDigit w) e), r)"
        using d0 er by (intro scanUnsignedDecimal_point) (auto simp add: decimalDigits_def)
      moreover have "length r < length r'"
      proof -
        have "length r \<le> length (dropWhile isDigit w)" using scanExponent_length [OF er] by simp
        also have "\<dots> \<le> length w" by (rule length_dropWhile_le)
        also have "\<dots> < length r1" by (simp add: w)
        finally show ?thesis using l1 by simp
      qed
      ultimately show ?thesis by (auto simp add: integerLiteral(1) noExponent(1) s w)
    next
      case False
      obtain e r where er: "scanExponent r1 = (e, r)" by (cases "scanExponent r1") auto
      have sc: "scanUnsignedDecimal (ip0 @ r1) = Some (round64 (decimalValue ip0 [] e), r)"
        using d0 h1 False er by (intro scanUnsignedDecimal_integer) auto
      have lr: "length r \<le> length r1" "length r = length r1 \<longrightarrow> e = 0"
        using scanExponent_length [OF er] by simp_all
      have "round64 (decimalValue ip0 [] e) = v'" if "length r = length r'"
      proof -
        from that lr(1) l1 have a: "length (dropWhile isDigit r') = length r'"
          by (simp add: r1_def)
        then have "takeWhile isDigit r' = []" by (rule dropWhile_same_length)
        then have "ip0 = ip" by (simp add: ip0_def)
        moreover have "e = 0" using lr(2) a that by (simp add: r1_def)
        ultimately show ?thesis by (simp add: integerLiteral(2) noExponent(2))
      qed
      then show ?thesis
        using sc lr(1) l1 by (auto simp add: integerLiteral(1) noExponent(1) s)
    qed
  next
    case someExponent
    from exponentPart_start [OF someExponent] obtain c y where x: "x = c # y"
      and c: "\<not> isDigit c" "c \<noteq> CHR ''.''" by blast
    obtain e r where er: "scanExponent (x @ r') = (e, r)" by (cases "scanExponent (x @ r')") auto
    have "scanUnsignedDecimal (ip @ (x @ r')) = Some (round64 (decimalValue ip [] e), r)"
      using integerLiteral(3) c er by (intro scanUnsignedDecimal_integer) (auto simp add: x)
    then show ?thesis
      using scanExponent_max [OF someExponent, of r'] er by (auto simp add: integerLiteral(1,2))
  qed
qed


lemma unsigned_literal_start:
  assumes "strUnsignedDecimalLiteral u v"
  shows "\<exists>c w. u = c # w \<and> c \<noteq> CHR ''+'' \<and> c \<noteq> CHR ''-''"
  using assms
proof cases
  case infinityLiteral
  then show ?thesis by simp
next
  case (pointLiteral ip fp x e)
  then obtain d ds where "ip = d # ds" "isDigit d"
    by (cases ip) (auto simp add: decimalDigits_def)
  then show ?thesis using pointLiteral(1) by auto
next
  case (fractionLiteral fp x e)
  then show ?thesis by simp
next
  case (integerLiteral ip x e)
  then obtain d ds where "ip = d # ds" "isDigit d"
    by (cases ip) (auto simp add: decimalDigits_def)
  then show ?thesis using integerLiteral(1) by auto
qed

lemma scanDecimal_sound:
  assumes "scanDecimal s = Some (v, r)"
  shows "\<exists>p. s = p @ r \<and> strDecimalLiteral p v"
proof (cases s)
  case Nil
  with assms show ?thesis by (simp add: scanDecimal_def)
next
  case (Cons c t)
  consider "c = CHR ''+''" | "c = CHR ''-''" | "c \<noteq> CHR ''+''" "c \<noteq> CHR ''-''" by blast
  then show ?thesis
  proof cases
    case 1
    with assms have "scanUnsignedDecimal t = Some (v, r)" by (simp add: scanDecimal_def Cons)
    from scanUnsignedDecimal_sound [OF this] obtain u where "t = u @ r"
      "strUnsignedDecimalLiteral u v" by blast
    then show ?thesis using plusLiteral [of u v] by (auto simp add: Cons 1)
  next
    case 2
    with assms obtain w where w: "scanUnsignedDecimal t = Some (w, r)" and v: "v = js_neg w"
      by (auto simp add: scanDecimal_def Cons)
    from scanUnsignedDecimal_sound [OF w] obtain u where "t = u @ r"
      "strUnsignedDecimalLiteral u w" by blast
    then show ?thesis using minusLiteral [of u w] by (auto simp add: Cons 2 v)
  next
    case 3
    with assms have "scanUnsignedDecimal s = Some (v, r)" by (simp add: scanDecimal_def Cons)
    from scanUnsignedDecimal_sound [OF this] show ?thesis using unsignedLiteral by blast
  qed
qed

lemma scanDecimal_max:
  assumes "strDecimalLiteral p' v'"
  shows "\<exists>v r. scanDecimal (p' @ r') = Some (v, r) \<and> length r \<le> length r'
     \<and> (length r = length r' \<longrightarrow> v = v')"
  using assms
proof cases
  case unsignedLiteral
  from unsigned_literal_start [OF unsignedLiteral] obtain c w where
    "p' = c # w" "c \<noteq> CHR ''+''" "c \<noteq> CHR ''-''" by blast
  then have "scanDecimal (p' @ r') = scanUnsignedDecimal (p' @ r')"
    by (simp add: scanDecimal_def)
  then show ?thesis using scanUnsignedDecimal_max [OF unsignedLiteral, of r'] by simp
next
  case (plusLiteral u)
  have "scanDecimal (p' @ r') = scanUnsignedDecimal (u @ r')"
    by (simp add: scanDecimal_def plusLiteral(1))
  then show ?thesis using scanUnsignedDecimal_max [OF plusLiteral(2), of r'] by simp
next
  case (minusLiteral u w)
  have "scanDecimal (p' @ r') = map_option (\<lambda>(v, r). (js_neg v, r)) (scanUnsignedDecimal (u @ r'))"
    by (simp add: scanDecimal_def minusLiteral(1))
  then show ?thesis
    using scanUnsignedDecimal_max [OF minusLiteral(3), of r'] by (auto simp add: minusLiteral(2))
qed

lemma prefix_length:
  assumes "take (length p) t = p"
  shows "length p \<le> length t" and "t = p @ drop (length p) t"
proof -
  have "length (take (length p) t) = length p" by (simp only: assms)
  then show "length p \<le> length t" by simp
  show "t = p @ drop (length p) t" by (metis append_take_drop_id assms)
qed

text \<open>So the scanner reads the longest literal at the start of the input.\<close>

lemma scanDecimal_longest:
  assumes "longestLiteralPrefix t p v"
  shows "scanDecimal t = Some (v, drop (length p) t)"
proof -
  from assms have lit: "strDecimalLiteral p v" and pre: "take (length p) t = p"
    and mx: "\<And>q w. strDecimalLiteral q w \<Longrightarrow> take (length q) t = q \<Longrightarrow> length q \<le> length p"
    by (auto simp add: longestLiteralPrefix_def)
  have t: "t = p @ drop (length p) t" by (metis append_take_drop_id pre)
  from scanDecimal_max [OF lit, of "drop (length p) t"] obtain v0 r0 where
    sc: "scanDecimal t = Some (v0, r0)" and le: "length r0 \<le> length (drop (length p) t)"
    and eq: "length r0 = length (drop (length p) t) \<longrightarrow> v0 = v"
    using t by auto
  from scanDecimal_sound [OF sc] obtain p0 where p0: "t = p0 @ r0" "strDecimalLiteral p0 v0"
    by blast
  have "take (length p0) t = p0" by (subst p0(1)) simp
  from mx [OF p0(2) this] have "length p0 \<le> length p" .
  moreover have "length t = length p0 + length r0" by (subst p0(1)) simp
  moreover note prefix_length(1) [OF pre]
  ultimately have l: "length r0 = length (drop (length p) t)" using le by simp
  then have "v0 = v" using eq by simp
  moreover have "r0 = drop (length p) t"
    by (metis l p0(1) t append_eq_append_conv)
  ultimately show ?thesis using sc by simp
qed

lemma scanDecimal_none:
  assumes "noLiteralPrefix t"
  shows "scanDecimal t = None"
proof (rule ccontr)
  assume "scanDecimal t \<noteq> None"
  then obtain v r where "scanDecimal t = Some (v, r)" by auto
  from scanDecimal_sound [OF this] obtain p where p: "t = p @ r" "strDecimalLiteral p v" by blast
  have "take (length p) t = p" by (subst p(1)) simp
  with assms p(2) show False by (auto simp add: noLiteralPrefix_def)
qed

lemma scanDecimal_some_longest:
  assumes "scanDecimal t = Some (v, r)"
  shows "\<exists>p. longestLiteralPrefix t p v"
proof -
  from scanDecimal_sound [OF assms] obtain p where p: "t = p @ r" "strDecimalLiteral p v" by blast
  have pre: "take (length p) t = p" by (subst p(1)) simp
  have "length q \<le> length p" if q: "strDecimalLiteral q w" "take (length q) t = q" for q w
  proof -
    have tq: "t = q @ drop (length q) t" by (metis append_take_drop_id q(2))
    from scanDecimal_max [OF q(1), of "drop (length q) t"] assms tq
    have "length r \<le> length (drop (length q) t)" by auto
    moreover have "length t = length p + length r" by (subst p(1)) simp
    moreover note prefix_length(1) [OF q(2)]
    ultimately show ?thesis by simp
  qed
  with p(2) pre show ?thesis by (auto simp add: longestLiteralPrefix_def)
qed

text \<open>\<^verbatim>\<open>parseFloat\<close> is the value of the longest literal after the leading white space,
  and \<open>NaN\<close> when there is none; one of the two is the case for every string.\<close>

lemma parseFloat_longest:
  "longestLiteralPrefix (trimStart s) p v \<Longrightarrow> parseFloat s = v"
  by (simp add: parseFloat_def scanDecimal_longest)

lemma parseFloat_none:
  "noLiteralPrefix (trimStart s) \<Longrightarrow> parseFloat s = NaN"
  by (simp add: parseFloat_def scanDecimal_none)

lemma parseFloat_cases:
  "noLiteralPrefix (trimStart s) \<or> (\<exists>p. longestLiteralPrefix (trimStart s) p (parseFloat s))"
proof (cases "scanDecimal (trimStart s)")
  case None
  have "noLiteralPrefix (trimStart s)"
    unfolding noLiteralPrefix_def
  proof (intro allI impI notI)
    fix q w assume q: "strDecimalLiteral q w" "take (length q) (trimStart s) = q"
    have "trimStart s = q @ drop (length q) (trimStart s)" by (metis append_take_drop_id q(2))
    with scanDecimal_max [OF q(1), of "drop (length q) (trimStart s)"] None show False by auto
  qed
  then show ?thesis ..
next
  case (Some a)
  then obtain v r where vr: "scanDecimal (trimStart s) = Some (v, r)" by (cases a) auto
  then have "parseFloat s = v" by (simp add: parseFloat_def)
  with scanDecimal_some_longest [OF vr] show ?thesis by auto
qed

lemma scanDecimal_prefix:
  assumes "scanDecimal t = Some (v, r)"
  shows "longestLiteralPrefix t (take (length t - length r) t) v"
proof -
  from scanDecimal_sound [OF assms] obtain p where p: "t = p @ r" "strDecimalLiteral p v" by blast
  have l: "length t = length p + length r" by (subst p(1)) simp
  have pre: "take (length p) t = p" by (subst p(1)) simp
  have "length q \<le> length p" if q: "strDecimalLiteral q w" "take (length q) t = q" for q w
  proof -
    have tq: "t = q @ drop (length q) t" by (metis append_take_drop_id q(2))
    from scanDecimal_max [OF q(1), of "drop (length q) t"] assms tq
    have "length r \<le> length (drop (length q) t)" by auto
    with l prefix_length(1) [OF q(2)] show ?thesis by simp
  qed
  with p(2) pre have "longestLiteralPrefix t p v" by (auto simp add: longestLiteralPrefix_def)
  moreover have "take (length t - length r) t = p" using pre l by simp
  ultimately show ?thesis by simp
qed

lemma scanDecimal_no_prefix:
  assumes "scanDecimal t = None"
  shows "noLiteralPrefix t"
  unfolding noLiteralPrefix_def
proof (intro allI impI notI)
  fix q w assume q: "strDecimalLiteral q w" "take (length q) t = q"
  have "t = q @ drop (length q) t" by (metis append_take_drop_id q(2))
  with scanDecimal_max [OF q(1), of "drop (length q) t"] assms show False by auto
qed


section \<open>Ordering of chapter keys: what is proved\<close>

lemma unsigned_literal_value:
  assumes "strUnsignedDecimalLiteral p v"
  shows "v \<noteq> NaN" and "v = Fin r \<Longrightarrow> onGrid r"
  using assms by (cases; auto dest: round64_onGrid)+

lemma literal_value:
  assumes "strDecimalLiteral p v"
  shows "v \<noteq> NaN" and "v = Fin r \<Longrightarrow> onGrid r"
proof -
  show "v \<noteq> NaN"
    using assms
  proof cases
    case (minusLiteral u w)
    with unsigned_literal_value(1) [OF minusLiteral(3)] show ?thesis by (cases w) auto
  qed (auto dest: unsigned_literal_value(1))
  assume "v = Fin r"
  with assms show "onGrid r"
  proof cases
    case (minusLiteral u w)
    with \<open>v = Fin r\<close> have "w = Fin (- r)" by (cases w) auto
    with unsigned_literal_value(2) [OF minusLiteral(3)] have "onGrid (- r)" by simp
    from onGrid_neg [OF this] show ?thesis by simp
  qed (auto dest: unsigned_literal_value(2))
qed

lemma parseFloat_onGrid:
  assumes "parseFloat s = Fin r"
  shows "onGrid r"
proof -
  from parseFloat_cases [of s] assms obtain p where
    "longestLiteralPrefix (trimStart s) p (Fin r)"
    by (auto dest: parseFloat_none)
  then have "strDecimalLiteral p (Fin r)" by (simp add: longestLiteralPrefix_def)
  then show ?thesis by (rule literal_value(2)) simp
qed

lemma round64_diff_sign:
  assumes "onGrid x" and "onGrid y"
  shows "js_less (round64 (x - y)) (Fin 0) = (x < y)"
    and "js_less (Fin 0) (round64 (x - y)) = (y < x)"
proof -
  have "js_less (round64 (x - y)) (Fin 0) = (x < y) \<and> js_less (Fin 0) (round64 (x - y)) = (y < x)"
  proof (cases "x = y")
    case True
    then show ?thesis by (simp add: round64_def)
  next
    case False
    then have "x - y \<noteq> 0" by simp
    from onGrid_least [OF onGrid_diff [OF assms] this] have "pow2 (- 1074) \<le> \<bar>x - y\<bar>" .
    from round64_sign(1,2) [OF this] show ?thesis by simp
  qed
  then show "js_less (round64 (x - y)) (Fin 0) = (x < y)"
    and "js_less (Fin 0) (round64 (x - y)) = (y < x)" by simp_all
qed

text \<open>On two keys that read as numbers, the sign of the comparison is the order of the
  numbers: the rounding of the difference does not lose it.\<close>

lemma chapterKeyCompare_sign:
  assumes "parseFloat a \<noteq> NaN" and "parseFloat b \<noteq> NaN"
  shows "lessCF (chapterKeyCompare localeCompare) a b = js_less (parseFloat a) (parseFloat b)"
    and "greaterCF (chapterKeyCompare localeCompare) a b = js_less (parseFloat b) (parseFloat a)"
proof -
  have c: "chapterKeyCompare localeCompare a b = js_round (js_sub (parseFloat a) (parseFloat b))"
    using assms by (simp add: chapterKeyCompare_def isNaN_def Let_def)
  have g: "\<And>x y. parseFloat a = Fin x \<Longrightarrow> parseFloat b = Fin y \<Longrightarrow> onGrid x \<and> onGrid y"
    by (simp add: parseFloat_onGrid)
  show "lessCF (chapterKeyCompare localeCompare) a b = js_less (parseFloat a) (parseFloat b)"
    using assms g
    by (cases "parseFloat a"; cases "parseFloat b")
       (auto simp add: lessCF_def c js_sub_def round64_diff_sign)
  show "greaterCF (chapterKeyCompare localeCompare) a b = js_less (parseFloat b) (parseFloat a)"
    using assms g
    by (cases "parseFloat a"; cases "parseFloat b")
       (auto simp add: greaterCF_def c js_sub_def round64_diff_sign)
qed

text \<open>Insertion from the left: a rearrangement, in ascending order when the comparison is
  consistent.\<close>

lemma mset_insertSorted: "mset (insertSorted comparefn x ys) = add_mset x (mset ys)"
  by (induction ys) auto

lemma mset_foldl_insert:
  "mset (foldl (\<lambda>acc x. insertSorted comparefn x acc) acc xs) = mset acc + mset xs"
  by (induction xs arbitrary: acc) (auto simp add: mset_insertSorted)

lemma mset_insertionSort: "mset (insertionSort comparefn xs) = mset xs"
  by (simp add: insertionSort_def mset_foldl_insert)

lemma consistent_irrefl:
  assumes "consistentComparator comparefn S" and "a \<in> S"
  shows "\<not> lessCF comparefn a a"
  using assms by (auto simp add: consistentComparator_def equalCF_def lessCF_def)

lemma consistent_trans:
  assumes "consistentComparator comparefn S" and "a \<in> S" "b \<in> S" "c \<in> S"
    and "lessCF comparefn a b" "lessCF comparefn b c"
  shows "lessCF comparefn a c"
  using assms unfolding consistentComparator_def by blast

lemma sorted_insertSorted:
  assumes "consistentComparator comparefn S" and "x \<in> S" and "set ys \<subseteq> S"
    and "sorted_wrt (\<lambda>a b. \<not> lessCF comparefn b a) ys"
  shows "sorted_wrt (\<lambda>a b. \<not> lessCF comparefn b a) (insertSorted comparefn x ys)"
  using assms(3,4)
proof (induction ys)
  case Nil
  show ?case by simp
next
  case (Cons y ys)
  have y: "y \<in> S" and ys: "set ys \<subseteq> S" using Cons.prems(1) by auto
  show ?case
  proof (cases "lessCF comparefn x y")
    case True
    have "\<not> lessCF comparefn y x"
    proof
      assume "lessCF comparefn y x"
      from consistent_trans [OF assms(1) y assms(2) y this True]
      show False using consistent_irrefl [OF assms(1) y] by simp
    qed
    moreover have "\<not> lessCF comparefn z x" if z: "z \<in> set ys" for z
    proof
      assume "lessCF comparefn z x"
      from consistent_trans [OF assms(1) _ assms(2) y this True] z ys
      have "lessCF comparefn z y" by auto
      with Cons.prems(2) z show False by simp
    qed
    ultimately show ?thesis using True Cons.prems(2) by auto
  next
    case False
    have "set (insertSorted comparefn x ys) = insert x (set ys)"
      by (metis mset_insertSorted set_mset_add_mset_insert set_mset_mset)
    then show ?thesis
      using False Cons.prems(2) Cons.IH [OF ys] by auto
  qed
qed

lemma sorted_foldl_insert:
  assumes "consistentComparator comparefn S" and "set acc \<subseteq> S" and "set xs \<subseteq> S"
    and "sorted_wrt (\<lambda>a b. \<not> lessCF comparefn b a) acc"
  shows "sorted_wrt (\<lambda>a b. \<not> lessCF comparefn b a)
     (foldl (\<lambda>acc x. insertSorted comparefn x acc) acc xs)"
  using assms(2-4)
proof (induction xs arbitrary: acc)
  case Nil
  then show ?case by simp
next
  case (Cons x xs)
  have x: "x \<in> S" and xs: "set xs \<subseteq> S" using Cons.prems(2) by auto
  have s: "set (insertSorted comparefn x acc) \<subseteq> S"
    using x Cons.prems(1)
    by (metis insert_subset mset_insertSorted set_mset_add_mset_insert set_mset_mset)
  from sorted_insertSorted [OF assms(1) x Cons.prems(1,3)]
  show ?case using Cons.IH [OF s xs] by simp
qed

lemma sorted_insertionSort:
  assumes "consistentComparator comparefn (set xs)"
  shows "sorted_wrt (\<lambda>a b. \<not> lessCF comparefn b a) (insertionSort comparefn xs)"
  unfolding insertionSort_def
  by (rule sorted_foldl_insert [OF assms]) simp_all

lemma Array_sort_sorted:
  assumes "Array_sort comparefn before after"
  shows "mset after = mset before"
    and "consistentComparator comparefn (set before) \<Longrightarrow>
      sorted_wrt (\<lambda>a b. \<not> lessCF comparefn b a) after"
  using assms by (auto simp add: Array_sort_def sorted_insertionSort)

text \<open>The keys of the two examples.\<close>

lemma parseFloat_samples:
  "parseFloat ''10'' = Fin 10" "parseFloat ''2'' = Fin 2" "parseFloat ''9'' = Fin 9"
  "parseFloat ''10x'' = Fin 10" "parseFloat ''a'' = NaN" "parseFloat ''b'' = NaN"
  by (simp_all add: parseFloat_def trimStart_def scanDecimal_def scanUnsignedDecimal_def
      scanExponent_def startsWith_def isWhiteSpace_def isDigit_def digitsVal_def digitVal_def
      pow10_def)

lemma round64_samples:
  "round64 0 = Fin 0" "round64 1 = Fin 1" "round64 7 = Fin 7" "round64 8 = Fin 8"
  "round64 (- 1) = Fin (- 1)" "round64 (- 7) = Fin (- 7)" "round64 (- 8) = Fin (- 8)"
  by simp_all

lemma compare_numeric_samples:
  "chapterKeyCompare lc ''10'' ''10'' = Fin 0" "chapterKeyCompare lc ''10'' ''2'' = Fin 8"
  "chapterKeyCompare lc ''10'' ''9'' = Fin 1" "chapterKeyCompare lc ''2'' ''10'' = Fin (- 8)"
  "chapterKeyCompare lc ''2'' ''2'' = Fin 0" "chapterKeyCompare lc ''2'' ''9'' = Fin (- 7)"
  "chapterKeyCompare lc ''9'' ''10'' = Fin (- 1)" "chapterKeyCompare lc ''9'' ''2'' = Fin 7"
  "chapterKeyCompare lc ''9'' ''9'' = Fin 0" "chapterKeyCompare lc ''10x'' ''10x'' = Fin 0"
  "chapterKeyCompare lc ''10x'' ''9'' = Fin 1" "chapterKeyCompare lc ''9'' ''10x'' = Fin (- 1)"
  by (simp_all add: chapterKeyCompare_def parseFloat_samples isNaN_def js_sub_def round64_samples)

lemma compare_letter_samples:
  "chapterKeyCompare lc ''a'' k = js_int (lc ''a'' k)"
  "chapterKeyCompare lc k ''a'' = js_int (lc k ''a'')"
  "chapterKeyCompare lc ''b'' k = js_int (lc ''b'' k)"
  "chapterKeyCompare lc k ''b'' = js_int (lc k ''b'')"
  by (simp_all add: chapterKeyCompare_def parseFloat_samples isNaN_def Let_def)

lemma sort_numeric_keys:
  "sortChapterKeys lc [''10'', ''2'', ''9''] result = (result = [''2'', ''9'', ''10''])"
proof -
  have c: "consistentComparator (chapterKeyCompare lc) (set [''10'', ''2'', ''9''])"
    by (simp add: consistentComparator_def equalCF_def lessCF_def greaterCF_def
        compare_numeric_samples)
  have i: "insertionSort (chapterKeyCompare lc) [''10'', ''2'', ''9''] = [''2'', ''9'', ''10'']"
    by (simp add: insertionSort_def lessCF_def compare_numeric_samples)
  have m: "mset [''2'', ''9'', ''10''] = mset [''10'', ''2'', ''9'']" by simp
  show ?thesis
    unfolding sortChapterKeys_def Array_sort_def using c i m by auto
qed

lemma sort_letter_keys:
  assumes "lc ''a'' ''a'' = 0" "lc ''b'' ''b'' = 0"
    and "lc ''10x'' ''a'' < 0" "0 < lc ''a'' ''10x''"
    and "lc ''a'' ''b'' < 0" "0 < lc ''b'' ''a''"
    and "lc ''10x'' ''b'' < 0" "0 < lc ''b'' ''10x''"
  shows "sortChapterKeys lc [''b'', ''a'', ''10x''] result = (result = [''10x'', ''a'', ''b''])"
proof -
  have c: "consistentComparator (chapterKeyCompare lc) (set [''b'', ''a'', ''10x''])"
    using assms
    by (simp add: consistentComparator_def equalCF_def lessCF_def greaterCF_def
        compare_numeric_samples compare_letter_samples js_int_def)
  have i: "insertionSort (chapterKeyCompare lc) [''b'', ''a'', ''10x''] = [''10x'', ''a'', ''b'']"
    using assms
    by (simp add: insertionSort_def lessCF_def compare_letter_samples js_int_def)
  have m: "mset [''10x'', ''a'', ''b''] = mset [''b'', ''a'', ''10x'']" by simp
  show ?thesis
    unfolding sortChapterKeys_def Array_sort_def using c i m by auto
qed

text \<open>
  What a consistent comparison gives: of "less", "equal" and "greater" exactly one holds,
  "less" one way is "greater" the other way, and equal elements compare alike.
\<close>

lemma consistent_cases:
  assumes "consistentComparator comparefn S" and "a \<in> S" "b \<in> S"
  shows "lessCF comparefn a b \<or> equalCF comparefn a b \<or> greaterCF comparefn a b"
    and "\<not> (lessCF comparefn a b \<and> equalCF comparefn a b)"
    and "\<not> (greaterCF comparefn a b \<and> equalCF comparefn a b)"
    and "\<not> (lessCF comparefn a b \<and> greaterCF comparefn a b)"
proof -
  from assms have n: "comparefn a b \<noteq> NaN" by (simp add: consistentComparator_def)
  show "lessCF comparefn a b \<or> equalCF comparefn a b \<or> greaterCF comparefn a b"
    using n by (cases "comparefn a b") (auto simp add: lessCF_def equalCF_def greaterCF_def)
  show "\<not> (lessCF comparefn a b \<and> equalCF comparefn a b)"
    by (cases "comparefn a b") (auto simp add: lessCF_def equalCF_def)
  show "\<not> (greaterCF comparefn a b \<and> equalCF comparefn a b)"
    by (cases "comparefn a b") (auto simp add: greaterCF_def equalCF_def)
  show "\<not> (lessCF comparefn a b \<and> greaterCF comparefn a b)"
    by (cases "comparefn a b") (auto simp add: lessCF_def greaterCF_def)
qed

lemma consistent_equal:
  assumes "consistentComparator comparefn S"
  shows "a \<in> S \<Longrightarrow> equalCF comparefn a a"
    and "a \<in> S \<Longrightarrow> b \<in> S \<Longrightarrow> equalCF comparefn a b \<Longrightarrow> equalCF comparefn b a"
    and "a \<in> S \<Longrightarrow> b \<in> S \<Longrightarrow> c \<in> S \<Longrightarrow> equalCF comparefn a b \<Longrightarrow> equalCF comparefn b c
      \<Longrightarrow> equalCF comparefn a c"
  using assms unfolding consistentComparator_def by blast+

lemma consistent_greater_less:
  assumes "consistentComparator comparefn S" and "a \<in> S" "b \<in> S"
    and "greaterCF comparefn a b"
  shows "lessCF comparefn b a"
proof -
  have g: "\<And>a b c. a \<in> S \<Longrightarrow> b \<in> S \<Longrightarrow> c \<in> S \<Longrightarrow> greaterCF comparefn a b
      \<Longrightarrow> greaterCF comparefn b c \<Longrightarrow> greaterCF comparefn a c"
    using assms(1) unfolding consistentComparator_def by blast
  from consistent_cases(1) [OF assms(1) assms(3) assms(2)]
  consider "lessCF comparefn b a" | "equalCF comparefn b a" | "greaterCF comparefn b a" by blast
  then show ?thesis
  proof cases
    case 1
    then show ?thesis .
  next
    case 2
    from consistent_equal(2) [OF assms(1) assms(3) assms(2) this]
    show ?thesis using consistent_cases(3) [OF assms(1-3)] assms(4) by simp
  next
    case 3
    from g [OF assms(2,3,2) assms(4) this] have "greaterCF comparefn a a" .
    with consistent_cases(3) [OF assms(1,2,2)] consistent_equal(1) [OF assms(1,2)]
    show ?thesis by simp
  qed
qed

lemma consistent_equal_less:
  assumes "consistentComparator comparefn S" and "x \<in> S" "y \<in> S" "z \<in> S"
    and "equalCF comparefn x z" and "lessCF comparefn x y"
  shows "lessCF comparefn z y"
proof -
  from consistent_cases(1) [OF assms(1) assms(4) assms(3)]
  consider "lessCF comparefn z y" | "equalCF comparefn z y" | "greaterCF comparefn z y" by blast
  then show ?thesis
  proof cases
    case 1
    then show ?thesis .
  next
    case 2
    from consistent_equal(3) [OF assms(1,2,4,3) assms(5) this]
    show ?thesis using consistent_cases(2) [OF assms(1,2,3)] assms(6) by simp
  next
    case 3
    from consistent_greater_less [OF assms(1,4,3) this] have "lessCF comparefn y z" .
    from consistent_trans [OF assms(1,2,3,4) assms(6) this] have "lessCF comparefn x z" .
    with consistent_cases(2) [OF assms(1,2,4)] assms(5) show ?thesis by simp
  qed
qed

text \<open>Insertion from the left keeps equal elements in their old order.\<close>

lemma stable_insertSorted:
  assumes "consistentComparator comparefn S" and "x \<in> S" and "k \<in> S" and "set ys \<subseteq> S"
    and "sorted_wrt (\<lambda>a b. \<not> lessCF comparefn b a) ys"
  shows "filter (\<lambda>z. equalCF comparefn z k) (insertSorted comparefn x ys)
     = filter (\<lambda>z. equalCF comparefn z k) (ys @ [x])"
  using assms(4,5)
proof (induction ys)
  case Nil
  show ?case by simp
next
  case (Cons y ys)
  have y: "y \<in> S" and ys: "set ys \<subseteq> S" using Cons.prems(1) by auto
  show ?case
  proof (cases "lessCF comparefn x y")
    case False
    then show ?thesis using Cons.IH [OF ys] Cons.prems(2) by simp
  next
    case True
    show ?thesis
    proof (cases "equalCF comparefn x k")
      case False
      then show ?thesis using True by simp
    next
      case xk: True
      have "\<not> equalCF comparefn z k" if z: "z \<in> set (y # ys)" for z
      proof
        assume zk: "equalCF comparefn z k"
        have zS: "z \<in> S" using z Cons.prems(1) by auto
        from consistent_equal(2) [OF assms(1) zS assms(3) zk] have "equalCF comparefn k z" .
        from consistent_equal(3) [OF assms(1,2,3) zS xk this] have "equalCF comparefn x z" .
        from consistent_equal_less [OF assms(1,2) y zS this True] have l: "lessCF comparefn z y" .
        show False
        proof (cases "z = y")
          case True
          with l consistent_irrefl [OF assms(1) y] show False by simp
        next
          case False
          with z have "z \<in> set ys" by simp
          with Cons.prems(2) l show False by simp
        qed
      qed
      then have "\<not> equalCF comparefn y k" and "filter (\<lambda>z. equalCF comparefn z k) ys = []"
        by (simp_all add: filter_empty_conv)
      then show ?thesis using True xk by simp
    qed
  qed
qed

lemma stable_foldl_insert:
  assumes "consistentComparator comparefn S" and "k \<in> S" and "set acc \<subseteq> S" and "set xs \<subseteq> S"
    and "sorted_wrt (\<lambda>a b. \<not> lessCF comparefn b a) acc"
  shows "filter (\<lambda>z. equalCF comparefn z k) (foldl (\<lambda>acc x. insertSorted comparefn x acc) acc xs)
     = filter (\<lambda>z. equalCF comparefn z k) (acc @ xs)"
  using assms(3-5)
proof (induction xs arbitrary: acc)
  case Nil
  then show ?case by simp
next
  case (Cons x xs)
  have x: "x \<in> S" and xs: "set xs \<subseteq> S" using Cons.prems(2) by auto
  have s: "set (insertSorted comparefn x acc) \<subseteq> S"
    using x Cons.prems(1)
    by (metis insert_subset mset_insertSorted set_mset_add_mset_insert set_mset_mset)
  from Cons.IH [OF s xs sorted_insertSorted [OF assms(1) x Cons.prems(1,3)]]
    stable_insertSorted [OF assms(1) x assms(2) Cons.prems(1,3)]
  show ?case by simp
qed

lemma stable_insertionSort:
  assumes "consistentComparator comparefn (set xs)" and "k \<in> set xs"
  shows "filter (\<lambda>z. equalCF comparefn z k) (insertionSort comparefn xs)
     = filter (\<lambda>z. equalCF comparefn z k) xs"
  unfolding insertionSort_def
  using stable_foldl_insert [OF assms(1,2), of "[]" xs] by simp

lemma Array_sort_total: "Array_sort comparefn xs (insertionSort comparefn xs)"
  by (simp add: Array_sort_def mset_insertionSort)

text \<open>
  Keys that all read as finite numbers: the comparison is consistent on them, "less" and
  "equal" being those of the numbers.
\<close>

lemma numeric_compare:
  assumes "parseFloat a = Fin x" and "parseFloat b = Fin y"
  shows "lessCF (chapterKeyCompare lc) a b = (x < y)"
    and "greaterCF (chapterKeyCompare lc) a b = (y < x)"
    and "equalCF (chapterKeyCompare lc) a b = (x = y)"
    and "chapterKeyCompare lc a b \<noteq> NaN"
proof -
  have c: "chapterKeyCompare lc a b = round64 (x - y)"
    using assms by (simp add: chapterKeyCompare_def isNaN_def js_sub_def)
  have l: "lessCF (chapterKeyCompare lc) a b = (x < y)"
    using chapterKeyCompare_sign(1) [of a b lc] assms by simp
  have g: "greaterCF (chapterKeyCompare lc) a b = (y < x)"
    using chapterKeyCompare_sign(2) [of a b lc] assms by simp
  show "lessCF (chapterKeyCompare lc) a b = (x < y)" by (rule l)
  show "greaterCF (chapterKeyCompare lc) a b = (y < x)" by (rule g)
  show "chapterKeyCompare lc a b \<noteq> NaN" by (simp add: c)
  show "equalCF (chapterKeyCompare lc) a b = (x = y)"
  proof
    assume "equalCF (chapterKeyCompare lc) a b"
    then have "\<not> lessCF (chapterKeyCompare lc) a b" "\<not> greaterCF (chapterKeyCompare lc) a b"
      by (simp_all add: equalCF_def lessCF_def greaterCF_def)
    with l g show "x = y" by simp
  next
    assume "x = y"
    then show "equalCF (chapterKeyCompare lc) a b" by (simp add: equalCF_def c round64_def)
  qed
qed

lemma numeric_consistent:
  assumes "\<forall>k\<in>S. \<exists>r. parseFloat k = Fin r"
  shows "consistentComparator (chapterKeyCompare lc) S"
  unfolding consistentComparator_def
proof (intro conjI ballI impI)
  fix a b assume "a \<in> S" "b \<in> S"
  with assms obtain x y where "parseFloat a = Fin x" "parseFloat b = Fin y" by blast
  then show "chapterKeyCompare lc a b \<noteq> NaN" by (rule numeric_compare(4))
next
  fix a assume "a \<in> S"
  with assms obtain x where "parseFloat a = Fin x" by blast
  then show "equalCF (chapterKeyCompare lc) a a" by (simp add: numeric_compare(3))
next
  fix a b assume "a \<in> S" "b \<in> S" and e: "equalCF (chapterKeyCompare lc) a b"
  with assms obtain x y where "parseFloat a = Fin x" "parseFloat b = Fin y" by blast
  with e show "equalCF (chapterKeyCompare lc) b a" by (simp add: numeric_compare(3))
next
  fix a b c assume "a \<in> S" "b \<in> S" "c \<in> S"
    and e: "equalCF (chapterKeyCompare lc) a b \<and> equalCF (chapterKeyCompare lc) b c"
  with assms obtain x y z where "parseFloat a = Fin x" "parseFloat b = Fin y" "parseFloat c = Fin z"
    by blast
  with e show "equalCF (chapterKeyCompare lc) a c" by (simp add: numeric_compare(3))
next
  fix a b c assume "a \<in> S" "b \<in> S" "c \<in> S"
    and e: "lessCF (chapterKeyCompare lc) a b \<and> lessCF (chapterKeyCompare lc) b c"
  with assms obtain x y z where "parseFloat a = Fin x" "parseFloat b = Fin y" "parseFloat c = Fin z"
    by blast
  with e show "lessCF (chapterKeyCompare lc) a c" by (simp add: numeric_compare(1))
next
  fix a b c assume "a \<in> S" "b \<in> S" "c \<in> S"
    and e: "greaterCF (chapterKeyCompare lc) a b \<and> greaterCF (chapterKeyCompare lc) b c"
  with assms obtain x y z where "parseFloat a = Fin x" "parseFloat b = Fin y" "parseFloat c = Fin z"
    by blast
  with e show "greaterCF (chapterKeyCompare lc) a c" by (simp add: numeric_compare(2))
qed

lemma numeric_sorted:
  assumes f: "\<forall>k\<in>set keys. \<exists>r. parseFloat k = Fin r"
    and s: "sortChapterKeys lc keys after"
  shows "sorted_wrt (\<lambda>x y. \<not> js_less (parseFloat y) (parseFloat x)) after"
proof -
  from s have m: "mset after = mset keys"
    unfolding sortChapterKeys_def by (rule Array_sort_sorted(1))
  then have e: "set after = set keys" by (rule mset_eq_setD)
  from s numeric_consistent [OF f]
  have "sorted_wrt (\<lambda>x y. \<not> lessCF (chapterKeyCompare lc) y x) after"
    unfolding sortChapterKeys_def by (rule Array_sort_sorted(2))
  then show ?thesis
  proof (rule sorted_wrt_mono_rel [rotated])
    fix x y assume "x \<in> set after" "y \<in> set after"
      and n: "\<not> lessCF (chapterKeyCompare lc) y x"
    with e f obtain u v where uv: "parseFloat x = Fin u" "parseFloat y = Fin v" by blast
    from n numeric_compare(1) [OF uv(2) uv(1)] show "\<not> js_less (parseFloat y) (parseFloat x)"
      by (simp add: uv)
  qed
qed

lemma sort_10x_9:
  "sortChapterKeys lc [''10x'', ''9''] result = (result = [''9'', ''10x''])"
proof -
  have c: "consistentComparator (chapterKeyCompare lc) (set [''10x'', ''9''])"
    by (simp add: consistentComparator_def equalCF_def lessCF_def greaterCF_def
        compare_numeric_samples)
  have i: "insertionSort (chapterKeyCompare lc) [''10x'', ''9''] = [''9'', ''10x'']"
    by (simp add: insertionSort_def lessCF_def compare_numeric_samples)
  have m: "mset [''9'', ''10x''] = mset [''10x'', ''9'']" by simp
  show ?thesis
    unfolding sortChapterKeys_def Array_sort_def using c i m by auto
qed

lemma scan_sample:
  "scanDecimal ''-1.5e1x'' = Some (Fin (- 15), ''x'')" "scanDecimal ''a'' = None"
  "trimStart '' -1.5e1x'' = ''-1.5e1x''" "trimStart ''a'' = ''a''"
  by (simp_all add: trimStart_def scanDecimal_def scanUnsignedDecimal_def
      scanExponent_def startsWith_def isWhiteSpace_def isDigit_def digitsVal_def digitVal_def
      pow10_def)

text \<open>
  Claim C2, as the program has it. For any two keys the comparison reads both with
  \<^verbatim>\<open>parseFloat\<close>, which skips leading white space and takes the longest prefix of what
  follows that is a decimal literal of the language (an optional sign, then
  \<^verbatim>\<open>Infinity\<close>, or digits with an optional fraction and an optional exponent), rounded
  to binary64; what follows the literal is ignored, and with no such prefix the key reads
  as \<open>NaN\<close>. When both keys read as numbers the comparison is their difference, negative
  exactly when the first number is the smaller and positive exactly when it is the
  greater; as soon as one key reads as \<open>NaN\<close> the comparison is \<^verbatim>\<open>localeCompare\<close> of the
  two keys. The sort returns a rearrangement of the keys, and where the comparison is
  consistent on them the result is in ascending order, equal keys in their old order;
  the comparison is consistent on keys that all read as finite numbers, which come out in
  the order of their numbers. The sort of \<^verbatim>\<open>10, 2, 9\<close> is \<^verbatim>\<open>2, 9, 10\<close> under every
  collation, and the sort of \<^verbatim>\<open>b, a, 10x\<close> is \<^verbatim>\<open>10x, a, b\<close> under every collation that
  puts \<^verbatim>\<open>10x\<close> before \<^verbatim>\<open>a\<close> before \<^verbatim>\<open>b\<close>; the key \<^verbatim>\<open>10x\<close> itself reads as the
  number 10.
\<close>

theorem chapter_key_ordering:
  "sortChapterKeys lc [''10'', ''2'', ''9''] result = (result = [''2'', ''9'', ''10''])
   \<and> (lc ''a'' ''a'' = 0 \<and> lc ''b'' ''b'' = 0
        \<and> lc ''10x'' ''a'' < 0 \<and> 0 < lc ''a'' ''10x''
        \<and> lc ''a'' ''b'' < 0 \<and> 0 < lc ''b'' ''a''
        \<and> lc ''10x'' ''b'' < 0 \<and> 0 < lc ''b'' ''10x''
        \<longrightarrow> sortChapterKeys lc [''b'', ''a'', ''10x''] result = (result = [''10x'', ''a'', ''b'']))
   \<and> (parseFloat a \<noteq> NaN \<and> parseFloat b \<noteq> NaN
        \<longrightarrow> chapterKeyCompare lc a b = js_round (js_sub (parseFloat a) (parseFloat b))
            \<and> lessCF (chapterKeyCompare lc) a b = js_less (parseFloat a) (parseFloat b)
            \<and> greaterCF (chapterKeyCompare lc) a b = js_less (parseFloat b) (parseFloat a))
   \<and> (parseFloat a = NaN \<or> parseFloat b = NaN
        \<longrightarrow> chapterKeyCompare lc a b = js_int (lc a b))
   \<and> (longestLiteralPrefix (trimStart s) p v \<longrightarrow> parseFloat s = v)
   \<and> (noLiteralPrefix (trimStart s) \<longrightarrow> parseFloat s = NaN)
   \<and> (noLiteralPrefix (trimStart s) \<or> (\<exists>q. longestLiteralPrefix (trimStart s) q (parseFloat s)))
   \<and> sortChapterKeys lc keys (insertionSort (chapterKeyCompare lc) keys)
   \<and> (sortChapterKeys lc keys after
        \<longrightarrow> mset after = mset keys
            \<and> (consistentComparator (chapterKeyCompare lc) (set keys)
                \<longrightarrow> sorted_wrt (\<lambda>x y. \<not> lessCF (chapterKeyCompare lc) y x) after
                    \<and> (\<forall>k\<in>set keys. filter (\<lambda>z. equalCF (chapterKeyCompare lc) z k) after
                          = filter (\<lambda>z. equalCF (chapterKeyCompare lc) z k) keys)))
   \<and> ((\<forall>k\<in>set keys. \<exists>r. parseFloat k = Fin r)
        \<longrightarrow> consistentComparator (chapterKeyCompare lc) (set keys))
   \<and> ((\<forall>k\<in>set keys. \<exists>r. parseFloat k = Fin r) \<and> sortChapterKeys lc keys after
        \<longrightarrow> sorted_wrt (\<lambda>x y. \<not> js_less (parseFloat y) (parseFloat x)) after)
   \<and> parseFloat ''10x'' = Fin 10"
proof (intro conjI impI ballI)
  show "sortChapterKeys lc [''10'', ''2'', ''9''] result = (result = [''2'', ''9'', ''10''])"
    by (rule sort_numeric_keys)
next
  assume "lc ''a'' ''a'' = 0 \<and> lc ''b'' ''b'' = 0
        \<and> lc ''10x'' ''a'' < 0 \<and> 0 < lc ''a'' ''10x''
        \<and> lc ''a'' ''b'' < 0 \<and> 0 < lc ''b'' ''a''
        \<and> lc ''10x'' ''b'' < 0 \<and> 0 < lc ''b'' ''10x''"
  then show "sortChapterKeys lc [''b'', ''a'', ''10x''] result = (result = [''10x'', ''a'', ''b''])"
    by (intro sort_letter_keys) simp_all
next
  assume "parseFloat a \<noteq> NaN \<and> parseFloat b \<noteq> NaN"
  then show "chapterKeyCompare lc a b = js_round (js_sub (parseFloat a) (parseFloat b))"
    by (simp add: chapterKeyCompare_def isNaN_def)
next
  assume "parseFloat a \<noteq> NaN \<and> parseFloat b \<noteq> NaN"
  then show "lessCF (chapterKeyCompare lc) a b = js_less (parseFloat a) (parseFloat b)"
    by (simp add: chapterKeyCompare_sign(1))
next
  assume "parseFloat a \<noteq> NaN \<and> parseFloat b \<noteq> NaN"
  then show "greaterCF (chapterKeyCompare lc) a b = js_less (parseFloat b) (parseFloat a)"
    by (simp add: chapterKeyCompare_sign(2))
next
  assume "parseFloat a = NaN \<or> parseFloat b = NaN"
  then show "chapterKeyCompare lc a b = js_int (lc a b)"
    by (auto simp add: chapterKeyCompare_def isNaN_def Let_def)
next
  assume "longestLiteralPrefix (trimStart s) p v"
  then show "parseFloat s = v" by (rule parseFloat_longest)
next
  assume "noLiteralPrefix (trimStart s)"
  then show "parseFloat s = NaN" by (rule parseFloat_none)
next
  show "noLiteralPrefix (trimStart s) \<or> (\<exists>q. longestLiteralPrefix (trimStart s) q (parseFloat s))"
    by (rule parseFloat_cases)
next
  show "sortChapterKeys lc keys (insertionSort (chapterKeyCompare lc) keys)"
    unfolding sortChapterKeys_def by (rule Array_sort_total)
next
  assume "sortChapterKeys lc keys after"
  then show "mset after = mset keys"
    unfolding sortChapterKeys_def by (rule Array_sort_sorted(1))
next
  assume "sortChapterKeys lc keys after"
    and "consistentComparator (chapterKeyCompare lc) (set keys)"
  then show "sorted_wrt (\<lambda>x y. \<not> lessCF (chapterKeyCompare lc) y x) after"
    unfolding sortChapterKeys_def by (rule Array_sort_sorted(2))
next
  fix k
  assume "sortChapterKeys lc keys after"
    and c: "consistentComparator (chapterKeyCompare lc) (set keys)" and k: "k \<in> set keys"
  then have "after = insertionSort (chapterKeyCompare lc) keys"
    by (simp add: sortChapterKeys_def Array_sort_def)
  then show "filter (\<lambda>z. equalCF (chapterKeyCompare lc) z k) after
      = filter (\<lambda>z. equalCF (chapterKeyCompare lc) z k) keys"
    using stable_insertionSort [OF c k] by simp
next
  assume "\<forall>k\<in>set keys. \<exists>r. parseFloat k = Fin r"
  then show "consistentComparator (chapterKeyCompare lc) (set keys)"
    by (rule numeric_consistent)
next
  assume "(\<forall>k\<in>set keys. \<exists>r. parseFloat k = Fin r) \<and> sortChapterKeys lc keys after"
  then show "sorted_wrt (\<lambda>x y. \<not> js_less (parseFloat y) (parseFloat x)) after"
    using numeric_sorted [of keys lc after] by simp
next
  show "parseFloat ''10x'' = Fin 10" by (rule parseFloat_samples(4))
qed

theorem chapter_key_ordering_witness:
  "sortChapterKeys codeUnitCompare [''b'', ''a'', ''10x''] [''10x'', ''a'', ''b'']
   \<and> chapterKeyCompare codeUnitCompare ''10'' ''9'' = Fin 1
   \<and> lessCF (chapterKeyCompare codeUnitCompare) ''9'' ''10''
   \<and> chapterKeyCompare codeUnitCompare ''a'' ''10x'' = Fin 1
   \<and> longestLiteralPrefix (trimStart '' -1.5e1x'') ''-1.5e1'' (Fin (- 15))
   \<and> parseFloat '' -1.5e1x'' = Fin (- 15)
   \<and> noLiteralPrefix (trimStart ''a'')
   \<and> parseFloat ''a'' = NaN
   \<and> consistentComparator (chapterKeyCompare codeUnitCompare) (set [''10x'', ''9''])
   \<and> sortChapterKeys codeUnitCompare [''10x'', ''9''] [''9'', ''10x'']
   \<and> sorted_wrt (\<lambda>x y. \<not> lessCF (chapterKeyCompare codeUnitCompare) y x) [''9'', ''10x'']
   \<and> sorted_wrt (\<lambda>x y. \<not> js_less (parseFloat y) (parseFloat x)) [''9'', ''10x'']"
proof -
  note t = chapter_key_ordering [where lc = codeUnitCompare and result = "[''10x'', ''a'', ''b'']"
      and a = "''10''" and b = "''9''" and s = "'' -1.5e1x''" and p = "''-1.5e1''"
      and v = "Fin (- 15)" and keys = "[''10x'', ''9'']" and after = "[''9'', ''10x'']"]
  note u = chapter_key_ordering [where lc = codeUnitCompare and a = "''a''" and b = "''10x''"
      and s = "''a''"]
  note w = chapter_key_ordering [where lc = codeUnitCompare and a = "''9''" and b = "''10''"]
  have h: "codeUnitCompare ''a'' ''a'' = 0 \<and> codeUnitCompare ''b'' ''b'' = 0
        \<and> codeUnitCompare ''10x'' ''a'' < 0 \<and> 0 < codeUnitCompare ''a'' ''10x''
        \<and> codeUnitCompare ''a'' ''b'' < 0 \<and> 0 < codeUnitCompare ''b'' ''a''
        \<and> codeUnitCompare ''10x'' ''b'' < 0 \<and> 0 < codeUnitCompare ''b'' ''10x''"
    by simp
  have n: "parseFloat ''10'' \<noteq> NaN \<and> parseFloat ''9'' \<noteq> NaN"
    "parseFloat ''9'' \<noteq> NaN \<and> parseFloat ''10'' \<noteq> NaN"
    "parseFloat ''a'' = NaN \<or> parseFloat ''10x'' = NaN"
    by (simp_all add: parseFloat_samples)
  have l: "longestLiteralPrefix (trimStart '' -1.5e1x'') ''-1.5e1'' (Fin (- 15))"
    using scanDecimal_prefix [OF scan_sample(1)] by (simp add: scan_sample(3))
  have e: "noLiteralPrefix (trimStart ''a'')"
    using scanDecimal_no_prefix [OF scan_sample(2)] by (simp add: scan_sample(4))
  have f: "\<forall>k\<in>set [''10x'', ''9'']. \<exists>r. parseFloat k = Fin r"
    by (simp add: parseFloat_samples)
  have i: "insertionSort (chapterKeyCompare codeUnitCompare) [''10x'', ''9''] = [''9'', ''10x'']"
    by (simp add: insertionSort_def lessCF_def compare_numeric_samples)
  from t [THEN conjunct2, THEN conjunct1, THEN mp, OF h]
  have 1: "sortChapterKeys codeUnitCompare [''b'', ''a'', ''10x''] [''10x'', ''a'', ''b'']"
    by simp
  from t [THEN conjunct2, THEN conjunct2, THEN conjunct1, THEN mp, OF n(1)]
  have 2: "chapterKeyCompare codeUnitCompare ''10'' ''9'' = Fin 1"
    by (simp add: parseFloat_samples js_sub_def)
  from w [THEN conjunct2, THEN conjunct2, THEN conjunct1, THEN mp, OF n(2)]
  have 3: "lessCF (chapterKeyCompare codeUnitCompare) ''9'' ''10''"
    by (simp add: parseFloat_samples)
  from u [THEN conjunct2, THEN conjunct2, THEN conjunct2, THEN conjunct1, THEN mp, OF n(3)]
  have 4: "chapterKeyCompare codeUnitCompare ''a'' ''10x'' = Fin 1"
    by (simp add: js_int_def)
  from t [THEN conjunct2, THEN conjunct2, THEN conjunct2, THEN conjunct2, THEN conjunct1, THEN mp, OF l]
  have 5: "parseFloat '' -1.5e1x'' = Fin (- 15)" .
  from u [THEN conjunct2, THEN conjunct2, THEN conjunct2, THEN conjunct2, THEN conjunct2, THEN conjunct1, THEN mp, OF e]
  have 6: "parseFloat ''a'' = NaN" .
  from t [THEN conjunct2, THEN conjunct2, THEN conjunct2, THEN conjunct2, THEN conjunct2, THEN conjunct2, THEN conjunct2, THEN conjunct2, THEN conjunct2, THEN conjunct1, THEN mp, OF f]
  have 7: "consistentComparator (chapterKeyCompare codeUnitCompare) (set [''10x'', ''9''])" .
  from t [THEN conjunct2, THEN conjunct2, THEN conjunct2, THEN conjunct2, THEN conjunct2, THEN conjunct2, THEN conjunct2, THEN conjunct1]
  have 8: "sortChapterKeys codeUnitCompare [''10x'', ''9''] [''9'', ''10x'']"
    by (simp only: i)
  from t [THEN conjunct2, THEN conjunct2, THEN conjunct2, THEN conjunct2, THEN conjunct2, THEN conjunct2, THEN conjunct2, THEN conjunct2, THEN conjunct1, THEN mp, OF 8, THEN conjunct2, THEN mp, OF 7, THEN conjunct1]
  have 9: "sorted_wrt (\<lambda>x y. \<not> lessCF (chapterKeyCompare codeUnitCompare) y x) [''9'', ''10x'']" .
  from t [THEN conjunct2, THEN conjunct2, THEN conjunct2, THEN conjunct2, THEN conjunct2, THEN conjunct2, THEN conjunct2, THEN conjunct2, THEN conjunct2, THEN conjunct2, THEN conjunct1, THEN mp, OF conjI [OF f 8]]
  have 10: "sorted_wrt (\<lambda>x y. \<not> js_less (parseFloat y) (parseFloat x)) [''9'', ''10x'']" .
  show ?thesis by (intro conjI 1 2 3 4 l 5 e 6 7 8 9 10)
qed

text \<open>
  Claim C2 as it is written fails: the key \<^verbatim>\<open>10x\<close> does not fail the numeric parse, it
  reads as 10. Against the key \<^verbatim>\<open>9\<close> it is therefore ordered by number, after \<^verbatim>\<open>9\<close>,
  while the comparison of the two strings puts it before \<^verbatim>\<open>9\<close>.
\<close>

theorem chapter_key_10x_counterexample:
  "parseFloat ''10x'' = Fin 10
   \<and> codeUnitCompare ''10x'' ''9'' < 0
   \<and> chapterKeyCompare codeUnitCompare ''10x'' ''9'' = Fin 1
   \<and> sortChapterKeys codeUnitCompare [''10x'', ''9''] [''9'', ''10x'']
   \<and> \<not> sortChapterKeys codeUnitCompare [''10x'', ''9''] [''10x'', ''9'']"
  by (simp add: parseFloat_samples compare_numeric_samples sort_10x_9)


end
